theory Spec2Isabelle
  imports Main
begin

section \<open>The lead source client (hd_api_client.py)\<close>

text \<open>
  The client keeps two fields between calls, \<open>access_token\<close> and \<open>token_expiry\<close>; both
  start as Python's \<open>None\<close>. Time is counted in seconds. Everything the client learns from
  outside is an explicit argument: the two readings of the clock that one call of
  \<open>_get_access_token\<close> can make, and the answer of the OAuth endpoint (a
  \<open>RequestException\<close>, or the decoded token object, whose two keys may be absent).
\<close>

datatype request_exception = RequestException

datatype py_exception = Exception string

record hd_client =
  access_token :: "string option"
  token_expiry :: "int option"

record token_data =
  td_access_token :: "string option"
  td_expires_in :: "int option"

record auth_env =
  clock_check :: int
  oauth_reply :: "request_exception + token_data"
  clock_store :: int

text \<open>Python's truth value of an optional string: \<open>None\<close> and the empty string are false.\<close>

definition truthy :: "string option \<Rightarrow> bool" where
  "truthy v = (case v of None \<Rightarrow> False | Some s \<Rightarrow> s \<noteq> [])"

text \<open>
  \<open>_get_access_token\<close>. The third component of the result counts the requests sent to the
  OAuth endpoint by this call.
\<close>

definition get_access_token :: "auth_env \<Rightarrow> hd_client \<Rightarrow> string option \<times> hd_client \<times> nat" where
  "get_access_token env c =
     (if truthy (access_token c) \<and>
         (case token_expiry c of None \<Rightarrow> False | Some e \<Rightarrow> clock_check env < e)
      then (access_token c, c, 0)
      else (case oauth_reply env of
              Inl RequestException \<Rightarrow> (None, c, 1)
            | Inr td \<Rightarrow>
                (let expires_in = (case td_expires_in td of None \<Rightarrow> 1800 | Some n \<Rightarrow> n);
                     c' = c\<lparr>access_token := td_access_token td,
                            token_expiry := Some (clock_store env + (expires_in - 300))\<rparr>
                 in (access_token c', c', 1))))"

text \<open>\<open>_get_headers\<close> raises when no token could be obtained; otherwise the token is the
  only part of the headers that varies.\<close>

definition get_headers :: "auth_env \<Rightarrow> hd_client \<Rightarrow> (py_exception + string) \<times> hd_client \<times> nat" where
  "get_headers env c =
     (case get_access_token env c of
        (tok, c', n) \<Rightarrow>
          (case tok of
             None \<Rightarrow> (Inl (Exception ''Failed to obtain access token''), c', n)
           | Some t \<Rightarrow>
               if t = [] then (Inl (Exception ''Failed to obtain access token''), c', n)
               else (Inr t, c', n)))"

text \<open>
  The decoded answer of the lead lookup. Each level of the envelope is read with
  \<open>.get(key, default)\<close>, so each key may be absent; the value under \<open>Sfileadheaderws\<close> is
  one bare record or a list of records. \<open>'a\<close> is the type of a lead record, which the
  client never inspects.
\<close>

datatype 'a one_or_many = One 'a | Many "'a list"

record 'a list_of_sfileadbows =
  Sfileadheaderws :: "'a one_or_many option"

record 'a sfileadlookupws_output =
  ListOfSfileadbows :: "'a list_of_sfileadbows option"
  LastPage :: "string option"

record 'a lookup_data =
  SFILEADLOOKUPWS_Output :: "'a sfileadlookupws_output option"

definition leads_data_of :: "'a lookup_data \<Rightarrow> 'a sfileadlookupws_output" where
  "leads_data_of data =
     (case SFILEADLOOKUPWS_Output data of
        None \<Rightarrow> \<lparr>ListOfSfileadbows = None, LastPage = None\<rparr>
      | Some d \<Rightarrow> d)"

definition leads_list_of :: "'a sfileadlookupws_output \<Rightarrow> 'a list" where
  "leads_list_of leads_data =
     (case ListOfSfileadbows leads_data of
        None \<Rightarrow> []
      | Some bows \<Rightarrow>
          (case Sfileadheaderws bows of
             None \<Rightarrow> []
           | Some (One d) \<Rightarrow> [d]
           | Some (Many ds) \<Rightarrow> ds))"

text \<open>
  The remote service: what it answers to the \<open>n\<close>-th lookup request of a run (counting
  from 0), given the \<open>PageSize\<close> and \<open>StartRowNum\<close> of the payload. The search
  expression is the same in every request of one run and is left out.
\<close>

type_synonym 'a lead_source = "nat \<Rightarrow> int \<Rightarrow> int \<Rightarrow> request_exception + 'a lookup_data"

text \<open>
  The \<open>while True\<close> loop of \<open>fetch_leads\<close>. \<open>n\<close> is the number of requests already sent. The
  loop returns the accumulated leads and the number of requests sent in all; a run that
  never leaves the loop has the value \<open>None\<close>.
\<close>

partial_function (option) fetch_pages ::
  "'a lead_source \<Rightarrow> int \<Rightarrow> int \<Rightarrow> nat \<Rightarrow> 'a list \<Rightarrow> ('a list \<times> nat) option" where
  "fetch_pages src page_size start_row n all_leads =
     (case src n page_size start_row of
        Inl RequestException \<Rightarrow> Some (all_leads, Suc n)
      | Inr data \<Rightarrow>
          (let leads_data = leads_data_of data;
               leads_list = leads_list_of leads_data
           in if leads_list = [] then Some (all_leads, Suc n)
              else if LastPage leads_data = Some ''true'' \<or> int (length leads_list) < page_size
                   then Some (all_leads @ leads_list, Suc n)
                   else fetch_pages src page_size (start_row + page_size) (Suc n)
                          (all_leads @ leads_list)))"

text \<open>
  \<open>fetch_leads\<close>: the headers first (an exception there leaves the function before any
  page is requested), then the loop from row 0 with nothing accumulated.
\<close>

definition fetch_leads ::
  "auth_env \<Rightarrow> 'a lead_source \<Rightarrow> int \<Rightarrow> hd_client
     \<Rightarrow> ((py_exception + 'a list) \<times> hd_client \<times> nat) option" where
  "fetch_leads env src page_size c =
     (case get_headers env c of
        (Inl e, c', k) \<Rightarrow> Some (Inl e, c', 0)
      | (Inr headers, c', k) \<Rightarrow>
          (case fetch_pages src page_size 0 0 [] of
             None \<Rightarrow> None
           | Some (all_leads, n) \<Rightarrow> Some (Inr all_leads, c', n)))"

text \<open>The three conditions under which a received page ends the pagination.\<close>

definition stops_pagination :: "int \<Rightarrow> 'a lookup_data \<Rightarrow> bool" where
  "stops_pagination page_size data =
     (leads_list_of (leads_data_of data) = []
      \<or> LastPage (leads_data_of data) = Some ''true''
      \<or> int (length (leads_list_of (leads_data_of data))) < page_size)"

definition page_leads :: "'a lookup_data \<Rightarrow> 'a list" where
  "page_leads data = leads_list_of (leads_data_of data)"

text \<open>
  Remote services to run the client against: one that answers the \<open>n\<close>-th request with
  the \<open>n\<close>-th entry of a script (and with an empty object once the script is used up),
  one that answers every request with the same object, and one that holds a finite list of
  rows and answers each request with the rows of the requested window.
\<close>

definition page :: "'a list \<Rightarrow> string option \<Rightarrow> 'a lookup_data" where
  "page ls lp =
     \<lparr>SFILEADLOOKUPWS_Output =
        Some \<lparr>ListOfSfileadbows = Some \<lparr>Sfileadheaderws = Some (Many ls)\<rparr>, LastPage = lp\<rparr>\<rparr>"

definition scripted_source :: "(request_exception + 'a lookup_data) list \<Rightarrow> 'a lead_source" where
  "scripted_source script n page_size start_row =
     (if n < length script then script ! n else Inr \<lparr>SFILEADLOOKUPWS_Output = None\<rparr>)"

definition repeating_source :: "'a lookup_data \<Rightarrow> 'a lead_source" where
  "repeating_source data n page_size start_row = Inr data"

definition dataset_source :: "'a list \<Rightarrow> 'a lead_source" where
  "dataset_source rows n page_size start_row =
     Inr (page (take (nat page_size) (drop (nat start_row) rows)) None)"

section \<open>The table sync engine (sheets_manager.py)\<close>

subsection \<open>Lead records\<close>

text \<open>
  A lead is the dictionary decoded from the service's answer. Its plain keys hold strings
  and are read with \<open>.get(key, '')\<close>; the key \<open>ListOfSfinotesws\<close> holds a nested object
  whose key \<open>Sfinotesws\<close> is one bare note or a list of notes, each note again a dictionary
  of strings. An absent key is \<open>None\<close>. (An empty object under \<open>ListOfSfinotesws\<close> is
  the object without the key \<open>Sfinotesws\<close>: the code returns the empty string for both.)
\<close>

type_synonym pydict = "string \<rightharpoonup> string"

record list_of_sfinotesws =
  Sfinotesws :: "pydict one_or_many option"

record lead =
  scalars :: pydict
  ListOfSfinotesws :: "list_of_sfinotesws option"

definition dict_get :: "pydict \<Rightarrow> string \<Rightarrow> string \<Rightarrow> string" where
  "dict_get d key dflt = (case d key of None \<Rightarrow> dflt | Some v \<Rightarrow> v)"

text \<open>Python's \<open>sep.join(xs)\<close>.\<close>

fun join :: "string \<Rightarrow> string list \<Rightarrow> string" where
  "join sep [] = []"
| "join sep [x] = x"
| "join sep (x # y # ys) = x @ sep @ join sep (y # ys)"

text \<open>The \<open>for note in notes_list\<close> loop of \<open>_extract_notes\<close>.\<close>

fun notes_text :: "pydict list \<Rightarrow> string list" where
  "notes_text [] = []"
| "notes_text (note # notes_list) =
     (let note_text = dict_get note ''Note'' []
      in if note_text \<noteq> []
         then (''['' @ dict_get note ''Created'' [] @ ''] '' @ note_text) # notes_text notes_list
         else notes_text notes_list)"

definition extract_notes :: "lead \<Rightarrow> string" where
  "extract_notes lead =
     (case ListOfSfinotesws lead of
        None \<Rightarrow> []
      | Some notes_data \<Rightarrow>
          (let notes_list =
                 (case Sfinotesws notes_data of
                    None \<Rightarrow> []
                  | Some (One d) \<Rightarrow> [d]
                  | Some (Many ds) \<Rightarrow> ds)
           in join '' | '' (notes_text notes_list)))"

text \<open>\<open>_lead_to_row\<close>; \<open>now\<close> is the formatted reading of the clock for this row.\<close>

definition lead_to_row :: "string \<Rightarrow> lead \<Rightarrow> string list" where
  "lead_to_row now lead =
     [dict_get (scalars lead) ''Id'' [],
      dict_get (scalars lead) ''MMSVCSServiceProviderOrderNumber'' [],
      dict_get (scalars lead) ''Created'' [],
      dict_get (scalars lead) ''SFIWorkflowOnlyStatus'' [],
      dict_get (scalars lead) ''ContactFirstName'' [],
      dict_get (scalars lead) ''ContactLastName'' [],
      (let preferred = dict_get (scalars lead) ''MMSVPreferredContactPhoneNumber'' []
       in if preferred \<noteq> [] then preferred
          else dict_get (scalars lead) ''SFIContactHomePhone'' []),
      dict_get (scalars lead) ''CellularPhone'' [],
      dict_get (scalars lead) ''MainEmailAddress'' [],
      dict_get (scalars lead) ''MMSVSiteAddress'' [],
      dict_get (scalars lead) ''MMSVSiteCity'' [],
      dict_get (scalars lead) ''MMSVSiteState'' [],
      dict_get (scalars lead) ''MMSVSitePostalCode'' [],
      dict_get (scalars lead) ''MMSVStoreNumber'' [],
      dict_get (scalars lead) ''MMSVStoreName'' [],
      dict_get (scalars lead) ''SFIProgramGroupNameUnconstrained'' [],
      dict_get (scalars lead) ''SFIMVendor'' [],
      dict_get (scalars lead) ''Description'' [],
      dict_get (scalars lead) ''MMSVQuestionAnswers'' [],
      extract_notes lead,
      now]"

text \<open>
  The notes cell as the specification words it: every note entry's \<open>[timestamp] text\<close>,
  in order, joined by \<open>" | "\<close>.
\<close>

definition note_entries :: "lead \<Rightarrow> pydict list" where
  "note_entries lead =
     (case ListOfSfinotesws lead of
        None \<Rightarrow> []
      | Some notes_data \<Rightarrow>
          (case Sfinotesws notes_data of
             None \<Rightarrow> []
           | Some (One d) \<Rightarrow> [d]
           | Some (Many ds) \<Rightarrow> ds))"

definition note_repr :: "pydict \<Rightarrow> string" where
  "note_repr note = ''['' @ dict_get note ''Created'' [] @ ''] '' @ dict_get note ''Note'' []"

definition spec_notes_cell :: "lead \<Rightarrow> string" where
  "spec_notes_cell lead = join '' | '' (map note_repr (note_entries lead))"

subsection \<open>The destination spreadsheet\<close>

text \<open>
  The spreadsheet service is not part of the program; the program is run against the
  following stand-in. A spreadsheet holds named tabs, each a list of rows of cells; the
  empty string is an empty cell. Every request is recorded in \<open>log\<close>. \<open>faults\<close> is a
  script of outcomes for the coming requests, one entry per request: \<open>Some status\<close> makes
  the request fail with an \<open>HttpError\<close> of that status, \<open>None\<close> (and an exhausted
  script) lets the service answer. A request that names a missing tab fails with status
  400, as does adding a tab that exists.

  The three ranges the program uses are \<open>A1:U1\<close>, \<open>A:A\<close> and \<open>A:U\<close> of a tab. A read
  returns the rows of the range cut to its columns, without the trailing empty cells of
  each row and without trailing empty rows, as the values API of the service does; an update
  writes the given rows over the cells from \<open>A1\<close> on; an append adds the rows below the
  existing ones and reports how many rows it wrote.
\<close>

datatype http_error = HttpError (status: nat)

datatype a1_range = A1_U1 | A_A | A_U

datatype request =
    ValuesGet string a1_range
  | ValuesUpdate string a1_range "string list list"
  | ValuesAppend string a1_range "string list list"
  | AddSheet string

record sheets_service =
  tabs :: "string \<rightharpoonup> string list list"
  faults :: "nat option list"
  log :: "request list"

definition send :: "request \<Rightarrow> sheets_service \<Rightarrow> nat option \<times> sheets_service" where
  "send rq svc =
     (case faults svc of
        [] \<Rightarrow> (None, svc\<lparr>log := log svc @ [rq]\<rparr>)
      | f # fs \<Rightarrow> (f, svc\<lparr>faults := fs, log := log svc @ [rq]\<rparr>))"

fun trim_trailing :: "('a \<Rightarrow> bool) \<Rightarrow> 'a list \<Rightarrow> 'a list" where
  "trim_trailing blank [] = []"
| "trim_trailing blank (x # xs) =
     (case trim_trailing blank xs of
        [] \<Rightarrow> if blank x then [] else [x]
      | y # ys \<Rightarrow> x # y # ys)"

fun range_rows :: "a1_range \<Rightarrow> string list list \<Rightarrow> string list list" where
  "range_rows A1_U1 g = take 1 g"
| "range_rows A_A g = g"
| "range_rows A_U g = g"

fun range_cols :: "a1_range \<Rightarrow> nat" where
  "range_cols A1_U1 = 21"
| "range_cols A_A = 1"
| "range_cols A_U = 21"

definition read_range :: "a1_range \<Rightarrow> string list list \<Rightarrow> string list list" where
  "read_range rng g =
     trim_trailing (\<lambda>row. row = [])
       (map (\<lambda>row. trim_trailing (\<lambda>cell. cell = []) (take (range_cols rng) row))
            (range_rows rng g))"

fun overwrite :: "string list list \<Rightarrow> string list list \<Rightarrow> string list list" where
  "overwrite [] g = g"
| "overwrite (v # vs) [] = v # overwrite vs []"
| "overwrite (v # vs) (row # g) = (v @ drop (length v) row) # overwrite vs g"

definition values_get ::
  "string \<Rightarrow> a1_range \<Rightarrow> sheets_service \<Rightarrow> (http_error + string list list) \<times> sheets_service" where
  "values_get sheet_name rng svc =
     (case send (ValuesGet sheet_name rng) svc of
        (Some st, s) \<Rightarrow> (Inl (HttpError st), s)
      | (None, s) \<Rightarrow>
          (case tabs s sheet_name of
             None \<Rightarrow> (Inl (HttpError 400), s)
           | Some g \<Rightarrow> (Inr (read_range rng g), s)))"

definition values_update ::
  "string \<Rightarrow> a1_range \<Rightarrow> string list list \<Rightarrow> sheets_service
     \<Rightarrow> (http_error + unit) \<times> sheets_service" where
  "values_update sheet_name rng vals svc =
     (case send (ValuesUpdate sheet_name rng vals) svc of
        (Some st, s) \<Rightarrow> (Inl (HttpError st), s)
      | (None, s) \<Rightarrow>
          (case tabs s sheet_name of
             None \<Rightarrow> (Inl (HttpError 400), s)
           | Some g \<Rightarrow> (Inr (), s\<lparr>tabs := (tabs s)(sheet_name \<mapsto> overwrite vals g)\<rparr>)))"

text \<open>The answer of an append is the \<open>updatedRows\<close> entry of its \<open>updates\<close> object.\<close>

definition values_append ::
  "string \<Rightarrow> a1_range \<Rightarrow> string list list \<Rightarrow> sheets_service
     \<Rightarrow> (http_error + nat option) \<times> sheets_service" where
  "values_append sheet_name rng vals svc =
     (case send (ValuesAppend sheet_name rng vals) svc of
        (Some st, s) \<Rightarrow> (Inl (HttpError st), s)
      | (None, s) \<Rightarrow>
          (case tabs s sheet_name of
             None \<Rightarrow> (Inl (HttpError 400), s)
           | Some g \<Rightarrow>
               (Inr (Some (length vals)), s\<lparr>tabs := (tabs s)(sheet_name \<mapsto> g @ vals)\<rparr>)))"

definition add_sheet :: "string \<Rightarrow> sheets_service \<Rightarrow> (http_error + unit) \<times> sheets_service" where
  "add_sheet sheet_name svc =
     (case send (AddSheet sheet_name) svc of
        (Some st, s) \<Rightarrow> (Inl (HttpError st), s)
      | (None, s) \<Rightarrow>
          (case tabs s sheet_name of
             Some g \<Rightarrow> (Inl (HttpError 400), s)
           | None \<Rightarrow> (Inr (), s\<lparr>tabs := (tabs s)(sheet_name \<mapsto> [])\<rparr>)))"

subsection \<open>The operations of \<open>SheetsManager\<close>\<close>

definition HEADERS :: "string list" where
  "HEADERS =
     [''Service Center ID'', ''Order Number'', ''Created Date'', ''Status'', ''First Name'',
      ''Last Name'', ''Phone'', ''Cell Phone'', ''Email'', ''Address'', ''City'', ''State'',
      ''Zip Code'', ''Store Number'', ''Store Name'', ''Program'', ''MVendor'', ''Description'',
      ''Question Answers'', ''Notes'', ''Last Updated'']"

text \<open>\<open>_create_sheet\<close> catches the \<open>HttpError\<close> of its request and returns nothing.\<close>

definition create_sheet :: "string \<Rightarrow> sheets_service \<Rightarrow> sheets_service" where
  "create_sheet sheet_name svc = snd (add_sheet sheet_name svc)"

text \<open>The \<open>try\<close> block of \<open>_ensure_headers\<close>: an \<open>HttpError\<close> of either request leaves it.\<close>

definition ensure_headers_try ::
  "string \<Rightarrow> sheets_service \<Rightarrow> (http_error + unit) \<times> sheets_service" where
  "ensure_headers_try sheet_name svc =
     (case values_get sheet_name A1_U1 svc of
        (Inl e, s) \<Rightarrow> (Inl e, s)
      | (Inr vals, s) \<Rightarrow>
          (case vals of
             [] \<Rightarrow> values_update sheet_name A1_U1 [HEADERS] s
           | first # _ \<Rightarrow>
               if first \<noteq> HEADERS then values_update sheet_name A1_U1 [HEADERS] s
               else (Inr (), s)))"

text \<open>
  \<open>_ensure_headers\<close>: on an \<open>HttpError\<close> of status 400 it creates the tab and calls itself
  again; any other \<open>HttpError\<close> is raised to the caller.
\<close>

function ensure_headers ::
  "string \<Rightarrow> sheets_service \<Rightarrow> (http_error + unit) \<times> sheets_service" where
  "ensure_headers sheet_name svc =
     (case ensure_headers_try sheet_name svc of
        (Inr u, s) \<Rightarrow> (Inr (), s)
      | (Inl e, s) \<Rightarrow>
          if status e = 400 then ensure_headers sheet_name (create_sheet sheet_name s)
          else (Inl e, s))"
  by pat_completeness auto

termination
proof (relation "measure (\<lambda>(sheet_name, svc).
          2 * length (faults svc) + (if tabs svc sheet_name = None then 1 else 0))")
  show "wf (measure (\<lambda>(sheet_name, svc).
          2 * length (faults svc) + (if tabs svc sheet_name = None then 1 else 0)))"
    by simp
next
  fix sheet_name :: string and svc s :: sheets_service and r e
  assume att: "(r, s) = ensure_headers_try sheet_name svc" and r: "r = Inl e" and e: "status e = 400"
  show "((sheet_name, create_sheet sheet_name s), (sheet_name, svc))
          \<in> measure (\<lambda>(sheet_name, svc).
               2 * length (faults svc) + (if tabs svc sheet_name = None then 1 else 0))"
  proof (cases "faults svc")
    case Nil
    with att r have "tabs svc sheet_name = None \<and> tabs s sheet_name = None \<and> faults s = []"
      by (auto simp: ensure_headers_try_def values_get_def values_update_def send_def
               split: option.splits list.splits if_splits)
    then show ?thesis
      by (simp add: create_sheet_def add_sheet_def send_def)
  next
    case (Cons f fs)
    with att r have "length (faults s) \<le> length fs"
      by (auto simp: ensure_headers_try_def values_get_def values_update_def send_def
               split: option.splits list.splits if_splits)
    moreover have "length (faults (create_sheet sheet_name s)) \<le> length (faults s)"
      by (auto simp: create_sheet_def add_sheet_def send_def split: option.splits list.splits)
    ultimately show ?thesis using Cons by simp
  qed
qed

declare ensure_headers.simps [simp del]

text \<open>\<open>get_existing_lead_ids\<close>: an \<open>HttpError\<close> of the read gives the empty set.\<close>

definition get_existing_lead_ids :: "string \<Rightarrow> sheets_service \<Rightarrow> string set \<times> sheets_service" where
  "get_existing_lead_ids sheet_name svc =
     (case values_get sheet_name A_A svc of
        (Inl e, s) \<Rightarrow> ({}, s)
      | (Inr vals, s) \<Rightarrow> (set (map hd (filter (\<lambda>row. row \<noteq> []) (tl vals))), s))"

text \<open>
  \<open>l.get('Id') not in existing_ids\<close>: a lead without the key \<open>Id\<close> yields \<open>None\<close>, which is
  in no set of cell values.
\<close>

definition id_not_in :: "string set \<Rightarrow> lead \<Rightarrow> bool" where
  "id_not_in existing_ids l =
     (case scalars l ''Id'' of None \<Rightarrow> True | Some i \<Rightarrow> i \<notin> existing_ids)"

text \<open>
  \<open>append_leads\<close>. \<open>clock k\<close> is the formatted reading of the clock when the row number
  \<open>k\<close> of the batch is built. An \<open>HttpError\<close> raised by \<open>_ensure_headers\<close> is not caught
  here and leaves the function; one raised by the append is caught and gives 0.
\<close>

definition append_leads ::
  "(nat \<Rightarrow> string) \<Rightarrow> lead list \<Rightarrow> string \<Rightarrow> bool \<Rightarrow> sheets_service
     \<Rightarrow> (http_error + nat) \<times> sheets_service" where
  "append_leads clock leads sheet_name skip_duplicates svc =
     (case ensure_headers sheet_name svc of
        (Inl e, s1) \<Rightarrow> (Inl e, s1)
      | (Inr u, s1) \<Rightarrow>
          (let (leads', s2) =
                 (if skip_duplicates
                  then (case get_existing_lead_ids sheet_name s1 of
                          (existing_ids, s) \<Rightarrow> (filter (id_not_in existing_ids) leads, s))
                  else (leads, s1))
           in if leads' = [] then (Inr 0, s2)
              else (let rows = map (\<lambda>(k, lead). lead_to_row (clock k) lead) (enumerate 0 leads')
                    in (case values_append sheet_name A_U rows s2 of
                          (Inl e, s3) \<Rightarrow> (Inr 0, s3)
                        | (Inr updatedRows, s3) \<Rightarrow>
                            (Inr (case updatedRows of None \<Rightarrow> length rows | Some k \<Rightarrow> k), s3)))))"

subsection \<open>Reading a table\<close>

text \<open>
  What the claims say about a table is stated on its rows: the tab's rows (none when the
  tab is missing), the header row as a read of \<open>A1:U1\<close> shows it, the identifier column
  below the header row, and the set of non-empty identifiers in it.
\<close>

definition grid_of :: "sheets_service \<Rightarrow> string \<Rightarrow> string list list" where
  "grid_of svc sheet_name = (case tabs svc sheet_name of None \<Rightarrow> [] | Some g \<Rightarrow> g)"

definition header_row :: "string list list \<Rightarrow> string list" where
  "header_row g =
     trim_trailing (\<lambda>cell. cell = []) (take 21 (case g of [] \<Rightarrow> [] | row # _ \<Rightarrow> row))"

definition first_cell :: "string list \<Rightarrow> string" where
  "first_cell row = (case row of [] \<Rightarrow> [] | cell # _ \<Rightarrow> cell)"

definition data_ids :: "string list list \<Rightarrow> string list" where
  "data_ids g = map first_cell (tl g)"

definition identifiers_in :: "string list list \<Rightarrow> string set" where
  "identifiers_in g = set (filter (\<lambda>cell. cell \<noteq> []) (data_ids g))"


section \<open>Properties of the lead source client\<close>

subsection \<open>The pagination loop and the token cache, step by step\<close>


lemma fetch_pages_fail:
  "src n page_size start_row = Inl e \<Longrightarrow>
   fetch_pages src page_size start_row n all_leads = Some (all_leads, Suc n)"
  by (subst fetch_pages.simps) (simp split: request_exception.split)

lemma fetch_pages_stop:
  "src n page_size start_row = Inr data \<Longrightarrow> stops_pagination page_size data \<Longrightarrow>
   fetch_pages src page_size start_row n all_leads = Some (all_leads @ page_leads data, Suc n)"
  by (subst fetch_pages.simps) (auto simp: stops_pagination_def page_leads_def Let_def)

lemma fetch_pages_next:
  "src n page_size start_row = Inr data \<Longrightarrow> \<not> stops_pagination page_size data \<Longrightarrow>
   fetch_pages src page_size start_row n all_leads =
   fetch_pages src page_size (start_row + page_size) (Suc n) (all_leads @ page_leads data)"
  by (subst fetch_pages.simps) (auto simp: stops_pagination_def page_leads_def Let_def)

lemma fetch_pages_run:
  assumes ok: "\<forall>i<k. src i page_size (int i * page_size) = Inr (p i) \<and> \<not> stops_pagination page_size (p i)"
  shows "j \<le> k \<Longrightarrow>
     fetch_pages src page_size (int j * page_size) j all_leads =
     fetch_pages src page_size (int k * page_size) k
       (all_leads @ concat (map (\<lambda>i. page_leads (p i)) [j..<k]))"
proof (induction "k - j" arbitrary: j all_leads)
  case 0
  then show ?case by simp
next
  case (Suc m)
  then have jk: "j < k" and m: "m = k - Suc j" by simp_all
  from ok jk have s: "src j page_size (int j * page_size) = Inr (p j)"
    and ns: "\<not> stops_pagination page_size (p j)" by auto
  have row: "int j * page_size + page_size = int (Suc j) * page_size"
    by (simp add: algebra_simps)
  have "fetch_pages src page_size (int j * page_size) j all_leads =
        fetch_pages src page_size (int (Suc j) * page_size) (Suc j) (all_leads @ page_leads (p j))"
    using fetch_pages_next [of src j page_size "int j * page_size" "p j" all_leads, OF s ns]
    unfolding row .
  also have "\<dots> = fetch_pages src page_size (int k * page_size) k
       ((all_leads @ page_leads (p j)) @ concat (map (\<lambda>i. page_leads (p i)) [Suc j..<k]))"
    using Suc.hyps(1) [OF m] jk by simp
  finally show ?case using jk by (simp add: upt_conv_Cons)
qed

lemma get_access_token_hit:
  assumes "access_token c = Some t" "t \<noteq> []" "token_expiry c = Some e" "clock_check env < e"
  shows "get_access_token env c = (Some t, c, 0)"
  using assms by (simp add: get_access_token_def truthy_def)

lemma get_access_token_result:
  "get_access_token env c = (Some t, c', n) \<Longrightarrow> access_token c' = Some t"
  by (auto simp: get_access_token_def Let_def split: if_splits sum.splits request_exception.splits)

lemma fetch_pages_terminates:
  assumes ps: "1 \<le> page_size"
    and fin: "\<forall>n start_row data. bound \<le> start_row \<longrightarrow> src n page_size start_row = Inr data
                \<longrightarrow> stops_pagination page_size data"
  shows "\<exists>r. fetch_pages src page_size start_row n all_leads = Some r"
proof (induction "nat (bound - start_row)" arbitrary: start_row n all_leads rule: less_induct)
  case less
  show ?case
  proof (cases "src n page_size start_row")
    case (Inl e)
    then show ?thesis using fetch_pages_fail [of src n page_size start_row e all_leads] by simp
  next
    case (Inr data)
    show ?thesis
    proof (cases "stops_pagination page_size data")
      case True
      then show ?thesis
        using fetch_pages_stop [of src n page_size start_row data all_leads] Inr by simp
    next
      case False
      with fin Inr have lt: "start_row < bound" by (meson not_le)
      with ps have "nat (bound - (start_row + page_size)) < nat (bound - start_row)" by simp
      from less [OF this] show ?thesis
        using fetch_pages_next [of src n page_size start_row data all_leads] Inr False by simp
    qed
  qed
qed

lemma fetch_pages_zero_diverges:
  assumes same: "\<forall>n. src n 0 0 = Inr data"
    and ne: "page_leads data \<noteq> []"
    and nl: "LastPage (leads_data_of data) \<noteq> Some ''true''"
  shows "fetch_pages src 0 0 n all_leads = None"
proof -
  have no: "\<not> (s = src \<and> ps = 0 \<and> sr = 0)" if "fetch_pages s ps sr m acc = Some y" for s ps sr m acc y
  proof (rule fetch_pages.raw_induct
      [where P = "\<lambda>s ps sr m acc y. \<not> (s = src \<and> ps = 0 \<and> sr = 0)", OF _ that])
    fix f :: "'a lead_source \<Rightarrow> int \<Rightarrow> int \<Rightarrow> nat \<Rightarrow> 'a list \<Rightarrow> ('a list \<times> nat) option"
    fix s ps sr m acc y
    assume IH: "\<And>s ps sr m acc y. f s ps sr m acc = Some y \<Longrightarrow> \<not> (s = src \<and> ps = 0 \<and> sr = 0)"
    assume body: "(case s m ps sr of
      Inl RequestException \<Rightarrow> Some (acc, Suc m)
      | Inr data \<Rightarrow>
          let leads_data = leads_data_of data;
              leads_list = leads_list_of leads_data
          in if leads_list = [] then Some (acc, Suc m)
             else if LastPage leads_data = Some ''true'' \<or>
                     int (length leads_list) < ps
                  then Some (acc @ leads_list, Suc m)
                  else f s ps (sr + ps) (Suc m) (acc @ leads_list)) = Some y"
    show "\<not> (s = src \<and> ps = 0 \<and> sr = 0)"
    proof
      assume eq: "s = src \<and> ps = 0 \<and> sr = 0"
      with body same ne nl have "f src 0 0 (Suc m) (acc @ page_leads data) = Some y"
        by (simp add: Let_def page_leads_def)
      from IH [OF this] show False by simp
    qed
  qed
  show ?thesis
  proof (cases "fetch_pages src 0 0 n all_leads")
    case None
    then show ?thesis .
  next
    case (Some y)
    from no [OF this] show ?thesis by simp
  qed
qed

lemma page_leads_page [simp]: "page_leads (page ls lp) = ls"
  by (simp add: page_leads_def page_def leads_data_of_def leads_list_of_def)

lemma LastPage_page [simp]: "LastPage (leads_data_of (page ls lp)) = lp"
  by (simp add: page_def leads_data_of_def)

lemma stops_pagination_page:
  "stops_pagination page_size (page ls lp) = (ls = [] \<or> lp = Some ''true'' \<or> int (length ls) < page_size)"
  using page_leads_page [of ls lp] LastPage_page [of ls lp]
  by (simp add: stops_pagination_def page_leads_def)

text \<open>
  Claim C3. Suppose the token is available and the service answers the requests number
  \<open>0\<close> to \<open>k\<close> (at the start rows \<open>0\<close>, \<open>page_size\<close>, \<open>2 * page_size\<close>, ...) with the pages
  \<open>p 0\<close>, ..., \<open>p k\<close>, where \<open>p k\<close> is the first page that has no records, or declares itself the
  last page, or has fewer records than \<open>page_size\<close>. Then \<open>fetch_leads\<close> sends exactly
  \<open>k + 1\<close> requests and returns the records of the pages \<open>p 0\<close>, ..., \<open>p k\<close> concatenated in
  the order received. The instance checked below: pages of 100, 100 and 37 records with
  page size 100 give the 237 records in their original order after three requests.
\<close>

theorem fetch_leads_pagination:
  assumes "get_headers env c = (Inr h, c', m)"
    and "\<forall>i\<le>k. src i page_size (int i * page_size) = Inr (p i)"
    and "\<forall>i<k. \<not> stops_pagination page_size (p i)"
    and "stops_pagination page_size (p k)"
  shows "fetch_leads env src page_size c =
           Some (Inr (concat (map (\<lambda>i. page_leads (p i)) [0..<Suc k])), c', Suc k)"
proof -
  have run: "fetch_pages src page_size (int 0 * page_size) 0 [] =
        fetch_pages src page_size (int k * page_size) k
          ([] @ concat (map (\<lambda>i. page_leads (p i)) [0..<k]))"
    using assms(2,3) by (intro fetch_pages_run) auto
  have "src k page_size (int k * page_size) = Inr (p k)" using assms(2) by simp
  from fetch_pages_stop [of src k page_size "int k * page_size" "p k", OF this assms(4)] run
  have "fetch_pages src page_size 0 0 [] =
          Some (concat (map (\<lambda>i. page_leads (p i)) [0..<Suc k]), Suc k)"
    by simp
  then show ?thesis using assms(1) by (simp add: fetch_leads_def)
qed

theorem fetch_leads_pagination_witness:
  "fetch_leads
     \<lparr>clock_check = 0, oauth_reply = Inl RequestException, clock_store = 0\<rparr>
     (scripted_source [Inr (page [0..<100] None), Inr (page [100..<200] None), Inr (page [200..<237] None)])
     100
     \<lparr>access_token = Some ''tok'', token_expiry = Some 60\<rparr>
   = Some (Inr ([0..<100] @ [100..<200] @ [200..<237]),
           \<lparr>access_token = Some ''tok'', token_expiry = Some 60\<rparr>, 3)
   \<and> [0..<100] @ [100..<200] @ [200..<237] = [0..<237::nat]
   \<and> length [0..<237::nat] = 237"
proof -
  let ?env = "\<lparr>clock_check = 0, oauth_reply = Inl RequestException, clock_store = 0\<rparr>"
  let ?c = "\<lparr>access_token = Some ''tok'', token_expiry = Some 60\<rparr>"
  define A B C :: "nat list" where "A = [0..<100]" and "B = [100..<200]" and "C = [200..<237]"
  define p where "p = (\<lambda>i::nat. if i = 0 then page A None else if i = 1 then page B None else page C None)"
  let ?src = "scripted_source [Inr (page A None), Inr (page B None), Inr (page C None)]"
  have len: "length A = 100" "length B = 100" "length C = 37"
    by (simp_all add: A_def B_def C_def del: upt_rec_numeral)
  then have ne: "A \<noteq> []" "B \<noteq> []" by auto
  have le2: "i \<le> 2 \<longleftrightarrow> i = 0 \<or> i = 1 \<or> i = 2" for i :: nat by auto
  have lt2: "i < 2 \<longleftrightarrow> i = 0 \<or> i = 1" for i :: nat by auto
  have h: "get_headers ?env ?c = (Inr ''tok'', ?c, 0)"
    by (simp add: get_headers_def get_access_token_def truthy_def)
  have a: "\<forall>i\<le>2. ?src i 100 (int i * 100) = Inr (p i)"
    by (simp add: scripted_source_def p_def le2)
  have b: "\<forall>i<2. \<not> stops_pagination 100 (p i)"
    by (simp add: stops_pagination_page p_def lt2 len ne)
  have c: "stops_pagination 100 (p 2)"
    by (simp add: stops_pagination_page p_def len)
  have up: "[0..<3] = [0, 1, 2::nat]" by (simp add: upt_rec)
  have cat: "[0..<100] @ [100..<200] @ [200..<237] = [0..<237::nat]"
    using upt_add_eq_append [of 0 100 100] upt_add_eq_append [of 0 200 37]
    by (simp del: upt_rec_numeral)
  have "fetch_leads ?env ?src 100 ?c = Some (Inr (A @ B @ C), ?c, 3)"
    using fetch_leads_pagination [where k = 2 and p = p and src = ?src and page_size = 100, OF h a b c]
    by (simp add: up p_def)
  then show ?thesis
    unfolding A_def B_def C_def using cat by (simp del: upt_rec_numeral)
qed


text \<open>
  Claim C4. Suppose the token is available, the service answers the requests number \<open>0\<close>
  to \<open>k - 1\<close> with pages that meet no stop condition, and the request number \<open>k\<close> fails with
  a \<open>RequestException\<close>. Then \<open>fetch_leads\<close> returns normally, with exactly the records of
  those \<open>k\<close> pages in order, and sends no request after the failed one.
\<close>

theorem fetch_leads_partial_on_failure:
  assumes "get_headers env c = (Inr h, c', m)"
    and "\<forall>i<k. src i page_size (int i * page_size) = Inr (p i)"
    and "\<forall>i<k. \<not> stops_pagination page_size (p i)"
    and "src k page_size (int k * page_size) = Inl e"
  shows "fetch_leads env src page_size c =
           Some (Inr (concat (map (\<lambda>i. page_leads (p i)) [0..<k])), c', Suc k)"
proof -
  have run: "fetch_pages src page_size (int 0 * page_size) 0 [] =
        fetch_pages src page_size (int k * page_size) k
          ([] @ concat (map (\<lambda>i. page_leads (p i)) [0..<k]))"
    using assms(2,3) by (intro fetch_pages_run) auto
  from fetch_pages_fail [of src k page_size "int k * page_size" e] assms(4) run
  have "fetch_pages src page_size 0 0 [] =
          Some (concat (map (\<lambda>i. page_leads (p i)) [0..<k]), Suc k)"
    by simp
  then show ?thesis using assms(1) by (simp add: fetch_leads_def)
qed

theorem fetch_leads_partial_on_failure_witness:
  "fetch_leads
     \<lparr>clock_check = 0, oauth_reply = Inl RequestException, clock_store = 0\<rparr>
     (scripted_source [Inr (page [10, 11] None), Inr (page [12, 13] None), Inl RequestException,
                       Inr (page [14, 15::nat] None)])
     2
     \<lparr>access_token = Some ''tok'', token_expiry = Some 60\<rparr>
   = Some (Inr [10, 11, 12, 13], \<lparr>access_token = Some ''tok'', token_expiry = Some 60\<rparr>, 3)"
proof -
  let ?env = "\<lparr>clock_check = 0, oauth_reply = Inl RequestException, clock_store = 0\<rparr>"
  let ?c = "\<lparr>access_token = Some ''tok'', token_expiry = Some 60\<rparr>"
  define p where "p = (\<lambda>i::nat. if i = 0 then page [10, 11::nat] None else page [12, 13] None)"
  let ?src = "scripted_source [Inr (page [10, 11] None), Inr (page [12, 13] None),
                Inl RequestException, Inr (page [14, 15::nat] None)]"
  have lt2: "i < 2 \<longleftrightarrow> i = 0 \<or> i = 1" for i :: nat by auto
  have h: "get_headers ?env ?c = (Inr ''tok'', ?c, 0)"
    by (simp add: get_headers_def get_access_token_def truthy_def)
  have a: "\<forall>i<2. ?src i 2 (int i * 2) = Inr (p i)"
    by (simp add: scripted_source_def p_def lt2)
  have b: "\<forall>i<2. \<not> stops_pagination 2 (p i)"
    by (simp add: stops_pagination_page p_def lt2)
  have c: "?src 2 2 (int 2 * 2) = Inl RequestException"
    by (simp add: scripted_source_def)
  have up: "[0..<2] = [0, 1::nat]" by (simp add: upt_rec)
  show ?thesis
    using fetch_leads_partial_on_failure
      [where k = 2 and p = p and src = ?src and page_size = 2, OF h a b c]
    by (simp add: up p_def)
qed

text \<open>
  Claim C7. A client that holds a non-empty cached token and an expiry instant that the
  clock has not reached answers \<open>_get_access_token\<close> with that token, sends nothing to the
  OAuth endpoint and keeps both fields as they are. The stored expiry already has the
  safety margin of 300 seconds taken off. Hence, whenever one call has returned a
  non-empty token, a following call made before the stored expiry returns the same token
  without an exchange.
\<close>

theorem get_access_token_cached:
  "(access_token c = Some t \<and> t \<noteq> [] \<and> token_expiry c = Some e \<and> clock_check env < e
      \<longrightarrow> get_access_token env c = (Some t, c, 0))
   \<and> (get_access_token env1 c0 = (Some t, c1, n1) \<and> t \<noteq> [] \<and>
        token_expiry c1 = Some e \<and> clock_check env2 < e
      \<longrightarrow> get_access_token env2 c1 = (Some t, c1, 0))"
proof (intro conjI impI)
  assume "access_token c = Some t \<and> t \<noteq> [] \<and> token_expiry c = Some e \<and> clock_check env < e"
  then show "get_access_token env c = (Some t, c, 0)"
    by (simp add: get_access_token_hit)
next
  assume a: "get_access_token env1 c0 = (Some t, c1, n1) \<and> t \<noteq> [] \<and>
        token_expiry c1 = Some e \<and> clock_check env2 < e"
  then have "access_token c1 = Some t" using get_access_token_result by blast
  with a show "get_access_token env2 c1 = (Some t, c1, 0)"
    by (simp add: get_access_token_hit)
qed

theorem get_access_token_cached_witness:
  "get_access_token
     \<lparr>clock_check = 1000,
      oauth_reply = Inr \<lparr>td_access_token = Some ''tok'', td_expires_in = Some 1800\<rparr>,
      clock_store = 1001\<rparr>
     \<lparr>access_token = None, token_expiry = None\<rparr>
   = (Some ''tok'', \<lparr>access_token = Some ''tok'', token_expiry = Some 2501\<rparr>, 1)
   \<and> get_access_token
     \<lparr>clock_check = 2500, oauth_reply = Inl RequestException, clock_store = 2500\<rparr>
     \<lparr>access_token = Some ''tok'', token_expiry = Some 2501\<rparr>
   = (Some ''tok'', \<lparr>access_token = Some ''tok'', token_expiry = Some 2501\<rparr>, 0)"
proof -
  let ?env1 = "\<lparr>clock_check = 1000,
      oauth_reply = Inr \<lparr>td_access_token = Some ''tok'', td_expires_in = Some 1800\<rparr>,
      clock_store = 1001\<rparr>"
  let ?c = "\<lparr>access_token = None, token_expiry = None\<rparr>"
  let ?c1 = "\<lparr>access_token = Some ''tok'', token_expiry = Some 2501\<rparr>"
  let ?env2 = "\<lparr>clock_check = 2500, oauth_reply = Inl RequestException, clock_store = 2500\<rparr>"
  have first: "get_access_token ?env1 ?c = (Some ''tok'', ?c1, 1)"
    by (simp add: get_access_token_def truthy_def)
  from get_access_token_cached
    [where ?env1.0 = ?env1 and ?c0.0 = ?c and t = "''tok''" and ?c1.0 = ?c1 and ?n1.0 = 1
       and e = 2501 and ?env2.0 = ?env2 and c = ?c1 and env = ?env2] first
  show ?thesis by simp
qed

text \<open>
  Claim C10, as amended. With a page size of at least 1 and a service that, from some start row on,
  has no page left that meets no stop condition (it holds finitely many rows),
  \<open>fetch_leads\<close> returns: every iteration either leaves the loop or moves the start row
  forward by \<open>page_size\<close>. With page size 0 the start row stays at 0 and no page is
  short; if the service keeps answering that same request with one non-empty page that
  is not declared the last one, \<open>fetch_leads\<close> never returns.
\<close>

theorem fetch_leads_termination:
  "(1 \<le> page_size \<and>
      (\<forall>n start_row data. bound \<le> start_row \<longrightarrow> src n page_size start_row = Inr data
           \<longrightarrow> stops_pagination page_size data)
      \<longrightarrow> (\<exists>r. fetch_leads env src page_size c = Some r))
   \<and> (get_headers env c = (Inr h, c', m) \<and> (\<forall>n. src0 n 0 0 = Inr data0) \<and>
        page_leads data0 \<noteq> [] \<and> LastPage (leads_data_of data0) \<noteq> Some ''true''
      \<longrightarrow> fetch_leads env src0 0 c = None)"
proof (intro conjI impI)
  assume a: "1 \<le> page_size \<and>
      (\<forall>n start_row data. bound \<le> start_row \<longrightarrow> src n page_size start_row = Inr data
           \<longrightarrow> stops_pagination page_size data)"
  then obtain r where "fetch_pages src page_size 0 0 [] = Some r"
    using fetch_pages_terminates [of page_size bound src 0 0 "[]"] by blast
  then show "\<exists>r. fetch_leads env src page_size c = Some r"
    by (cases "get_headers env c" rule: prod_cases3)
       (auto simp: fetch_leads_def split: sum.splits prod.splits)
next
  assume a: "get_headers env c = (Inr h, c', m) \<and> (\<forall>n. src0 n 0 0 = Inr data0) \<and>
        page_leads data0 \<noteq> [] \<and> LastPage (leads_data_of data0) \<noteq> Some ''true''"
  then have "fetch_pages src0 0 0 0 [] = None"
    using fetch_pages_zero_diverges [of src0 data0 0 "[]"] by blast
  with a show "fetch_leads env src0 0 c = None"
    by (simp add: fetch_leads_def)
qed

lemma stops_pagination_dataset:
  "int (length rows) \<le> start_row \<Longrightarrow> dataset_source rows n page_size start_row = Inr data
     \<Longrightarrow> stops_pagination page_size data"
  by (auto simp: dataset_source_def stops_pagination_page)

theorem fetch_leads_termination_witness:
  "(\<exists>r. fetch_leads
          \<lparr>clock_check = 0, oauth_reply = Inl RequestException, clock_store = 0\<rparr>
          (dataset_source [10, 11, 12, 13, 14::nat]) 2
          \<lparr>access_token = Some ''tok'', token_expiry = Some 60\<rparr> = Some r)
   \<and> fetch_leads
          \<lparr>clock_check = 0, oauth_reply = Inl RequestException, clock_store = 0\<rparr>
          (repeating_source (page [10, 11::nat] None)) 0
          \<lparr>access_token = Some ''tok'', token_expiry = Some 60\<rparr> = None"
proof -
  let ?env = "\<lparr>clock_check = 0, oauth_reply = Inl RequestException, clock_store = 0\<rparr>"
  let ?c = "\<lparr>access_token = Some ''tok'', token_expiry = Some 60\<rparr>"
  have h: "get_headers ?env ?c = (Inr ''tok'', ?c, 0)"
    by (simp add: get_headers_def get_access_token_def truthy_def)
  have fin: "\<forall>n start_row data. 5 \<le> start_row \<longrightarrow>
      dataset_source [10, 11, 12, 13, 14::nat] n 2 start_row = Inr data \<longrightarrow> stops_pagination 2 data"
    using stops_pagination_dataset [of "[10, 11, 12, 13, 14::nat]"] by simp
  have rep: "\<forall>n. repeating_source (page [10, 11::nat] None) n 0 0 = Inr (page [10, 11] None)"
    by (simp add: repeating_source_def)
  show ?thesis
    using fetch_leads_termination
      [where page_size = 2 and bound = 5 and src = "dataset_source [10, 11, 12, 13, 14::nat]"
         and env = ?env and c = ?c and h = "''tok''" and c' = ?c and m = 0
         and ?src0.0 = "repeating_source (page [10, 11::nat] None)"
         and ?data0.0 = "page [10, 11::nat] None"]
      h fin rep
    by simp
qed

theorem fetch_leads_page_size_zero_counterexample:
  "page_leads (page [10, 11::nat] (Some ''true'')) = [10, 11]
   \<and> fetch_leads
       \<lparr>clock_check = 0, oauth_reply = Inl RequestException, clock_store = 0\<rparr>
       (repeating_source (page [10, 11::nat] (Some ''true''))) 0
       \<lparr>access_token = Some ''tok'', token_expiry = Some 60\<rparr>
     = Some (Inr [10, 11], \<lparr>access_token = Some ''tok'', token_expiry = Some 60\<rparr>, 1)"
proof -
  let ?env = "\<lparr>clock_check = 0, oauth_reply = Inl RequestException, clock_store = 0\<rparr>"
  let ?c = "\<lparr>access_token = Some ''tok'', token_expiry = Some 60\<rparr>"
  let ?d = "page [10, 11::nat] (Some ''true'')"
  have h: "get_headers ?env ?c = (Inr ''tok'', ?c, 0)"
    by (simp add: get_headers_def get_access_token_def truthy_def)
  have "fetch_pages (repeating_source ?d) 0 0 0 [] = Some ([] @ page_leads ?d, Suc 0)"
    by (rule fetch_pages_stop) (simp_all add: repeating_source_def stops_pagination_page)
  then show ?thesis using h by (simp add: fetch_leads_def)
qed


section \<open>Properties of the table sync engine\<close>

subsection \<open>The spreadsheet when no fault is scripted\<close>

lemma send_ok: "faults svc = [] \<Longrightarrow> send rq svc = (None, svc\<lparr>log := log svc @ [rq]\<rparr>)"
  by (simp add: send_def)

lemma values_get_ok:
  "faults svc = [] \<Longrightarrow> tabs svc sheet_name = Some g \<Longrightarrow>
   values_get sheet_name rng svc =
     (Inr (read_range rng g), svc\<lparr>log := log svc @ [ValuesGet sheet_name rng]\<rparr>)"
  by (simp add: values_get_def send_ok)

lemma values_get_missing:
  "faults svc = [] \<Longrightarrow> tabs svc sheet_name = None \<Longrightarrow>
   values_get sheet_name rng svc =
     (Inl (HttpError 400), svc\<lparr>log := log svc @ [ValuesGet sheet_name rng]\<rparr>)"
  by (simp add: values_get_def send_ok)

lemma values_update_ok:
  "faults svc = [] \<Longrightarrow> tabs svc sheet_name = Some g \<Longrightarrow>
   values_update sheet_name rng vals svc =
     (Inr (), svc\<lparr>tabs := (tabs svc)(sheet_name \<mapsto> overwrite vals g),
                 log := log svc @ [ValuesUpdate sheet_name rng vals]\<rparr>)"
  by (simp add: values_update_def send_ok)

lemma values_append_ok:
  "faults svc = [] \<Longrightarrow> tabs svc sheet_name = Some g \<Longrightarrow>
   values_append sheet_name rng vals svc =
     (Inr (Some (length vals)),
      svc\<lparr>tabs := (tabs svc)(sheet_name \<mapsto> g @ vals),
          log := log svc @ [ValuesAppend sheet_name rng vals]\<rparr>)"
  by (simp add: values_append_def send_ok)

lemma create_sheet_ok:
  "faults svc = [] \<Longrightarrow> tabs svc sheet_name = None \<Longrightarrow>
   create_sheet sheet_name svc =
     svc\<lparr>tabs := (tabs svc)(sheet_name \<mapsto> []), log := log svc @ [AddSheet sheet_name]\<rparr>"
  by (simp add: create_sheet_def add_sheet_def send_ok)

lemma length_HEADERS: "length HEADERS = 21"
  by (simp add: HEADERS_def)

lemma HEADERS_not_Nil: "HEADERS \<noteq> []"
  using length_HEADERS by auto

lemma read_header_range:
  "read_range A1_U1 g = (if header_row g = [] then [] else [header_row g])"
  by (cases g) (simp_all add: read_range_def header_row_def)

lemma trim_trailing_Nil_iff: "trim_trailing blank xs = [] \<longleftrightarrow> (\<forall>x\<in>set xs. blank x)"
  by (induction xs) (auto split: list.splits)

lemma trim_trailing_id: "xs \<noteq> [] \<Longrightarrow> \<not> blank (last xs) \<Longrightarrow> trim_trailing blank xs = xs"
proof (induction xs)
  case Nil
  then show ?case by simp
next
  case (Cons a xs)
  show ?case
  proof (cases "xs = []")
    case True
    with Cons.prems show ?thesis by simp
  next
    case False
    with Cons have "trim_trailing blank xs = xs" by simp
    with False show ?thesis by (simp split: list.splits)
  qed
qed

lemma last_HEADERS: "last HEADERS = ''Last Updated''"
  by (simp add: HEADERS_def)

lemma trim_HEADERS: "trim_trailing (\<lambda>cell. cell = []) HEADERS = HEADERS"
  using HEADERS_not_Nil by (simp add: trim_trailing_id last_HEADERS)

lemma header_row_overwrite: "header_row (overwrite [HEADERS] g) = HEADERS"
  by (cases g) (simp_all add: header_row_def length_HEADERS trim_HEADERS)

lemma tl_overwrite: "tl (overwrite [HEADERS] g) = tl g"
  by (cases g) simp_all

lemma overwrite_not_Nil: "overwrite [HEADERS] g \<noteq> []"
  by (cases g) simp_all

lemma ensure_headers_try_present:
  assumes "faults svc = []" "tabs svc sheet_name = Some g" "header_row g = HEADERS"
  shows "ensure_headers_try sheet_name svc =
           (Inr (), svc\<lparr>log := log svc @ [ValuesGet sheet_name A1_U1]\<rparr>)"
  using assms HEADERS_not_Nil
  by (simp add: ensure_headers_try_def values_get_ok read_header_range)

lemma ensure_headers_try_install:
  assumes "faults svc = []" "tabs svc sheet_name = Some g" "header_row g \<noteq> HEADERS"
  shows "ensure_headers_try sheet_name svc =
           (Inr (), svc\<lparr>tabs := (tabs svc)(sheet_name \<mapsto> overwrite [HEADERS] g),
                       log := log svc @ [ValuesGet sheet_name A1_U1,
                                         ValuesUpdate sheet_name A1_U1 [HEADERS]]\<rparr>)"
  using assms
  by (simp add: ensure_headers_try_def values_get_ok read_header_range values_update_ok)

lemma ensure_headers_try_missing:
  assumes "faults svc = []" "tabs svc sheet_name = None"
  shows "ensure_headers_try sheet_name svc =
           (Inl (HttpError 400), svc\<lparr>log := log svc @ [ValuesGet sheet_name A1_U1]\<rparr>)"
  using assms by (simp add: ensure_headers_try_def values_get_missing)

lemma ensure_headers_present:
  assumes "faults svc = []" "tabs svc sheet_name = Some g" "header_row g = HEADERS"
  shows "ensure_headers sheet_name svc =
           (Inr (), svc\<lparr>log := log svc @ [ValuesGet sheet_name A1_U1]\<rparr>)"
  by (subst ensure_headers.simps) (simp add: ensure_headers_try_present [OF assms])

lemma ensure_headers_install:
  assumes "faults svc = []" "tabs svc sheet_name = Some g" "header_row g \<noteq> HEADERS"
  shows "ensure_headers sheet_name svc =
           (Inr (), svc\<lparr>tabs := (tabs svc)(sheet_name \<mapsto> overwrite [HEADERS] g),
                       log := log svc @ [ValuesGet sheet_name A1_U1,
                                         ValuesUpdate sheet_name A1_U1 [HEADERS]]\<rparr>)"
  by (subst ensure_headers.simps) (simp add: ensure_headers_try_install [OF assms])

lemma ensure_headers_missing:
  assumes "faults svc = []" "tabs svc sheet_name = None"
  shows "ensure_headers sheet_name svc =
           (Inr (), svc\<lparr>tabs := (tabs svc)(sheet_name \<mapsto> [HEADERS]),
                       log := log svc @ [ValuesGet sheet_name A1_U1, AddSheet sheet_name,
                                         ValuesGet sheet_name A1_U1,
                                         ValuesUpdate sheet_name A1_U1 [HEADERS]]\<rparr>)"
proof -
  let ?s1 = "svc\<lparr>log := log svc @ [ValuesGet sheet_name A1_U1]\<rparr>"
  let ?s2 = "?s1\<lparr>tabs := (tabs ?s1)(sheet_name \<mapsto> []), log := log ?s1 @ [AddSheet sheet_name]\<rparr>"
  have c: "create_sheet sheet_name ?s1 = ?s2"
    using assms by (intro create_sheet_ok) simp_all
  have h: "header_row [] \<noteq> HEADERS"
    using HEADERS_not_Nil by (simp add: header_row_def)
  have "ensure_headers sheet_name ?s2 =
          (Inr (), ?s2\<lparr>tabs := (tabs ?s2)(sheet_name \<mapsto> overwrite [HEADERS] []),
                       log := log ?s2 @ [ValuesGet sheet_name A1_U1,
                                         ValuesUpdate sheet_name A1_U1 [HEADERS]]\<rparr>)"
    using assms h by (intro ensure_headers_install) simp_all
  then show ?thesis
    by (subst ensure_headers.simps) (simp add: ensure_headers_try_missing [OF assms] c)
qed

subsection \<open>Reading the identifier column\<close>

lemma filter_tl_trim_trailing:
  "filter (\<lambda>x. \<not> blank x) (tl (trim_trailing blank xs)) = filter (\<lambda>x. \<not> blank x) (tl xs)"
proof (cases xs)
  case Nil
  then show ?thesis by simp
next
  case (Cons a ys)
  have f: "filter (\<lambda>x. \<not> blank x) (trim_trailing blank zs) = filter (\<lambda>x. \<not> blank x) zs" for zs
    by (induction zs) (auto split: list.splits)
  show ?thesis
  proof (cases "trim_trailing blank ys")
    case Nil
    then have "filter (\<lambda>x. \<not> blank x) ys = []" using f [of ys] by simp
    with Nil Cons show ?thesis by simp
  next
    case (Cons y ys')
    with \<open>xs = a # ys\<close> show ?thesis using f [of ys] by simp
  qed
qed

lemma cell_row: "trim_trailing (\<lambda>cell. cell = []) (take (Suc 0) row) =
                   (if first_cell row = [] then [] else [first_cell row])"
  by (cases row) (simp_all add: first_cell_def)

lemma ids_of_column:
  "map hd (filter (\<lambda>row. row \<noteq> [])
      (map (\<lambda>row. trim_trailing (\<lambda>cell. cell = []) (take (Suc 0) row)) rows)) =
   filter (\<lambda>cell. cell \<noteq> []) (map first_cell rows)"
  by (induction rows) (simp_all add: cell_row del: take_Suc_Cons)

lemma ids_of_read:
  "set (map hd (filter (\<lambda>row. row \<noteq> []) (tl (read_range A_A g)))) = identifiers_in g"
proof -
  have "filter (\<lambda>row. row \<noteq> []) (tl (read_range A_A g)) =
        filter (\<lambda>row. row \<noteq> [])
          (map (\<lambda>row. trim_trailing (\<lambda>cell. cell = []) (take (Suc 0) row)) (tl g))"
    using filter_tl_trim_trailing [of "\<lambda>row. row = []"]
    by (simp add: read_range_def map_tl)
  then have "map hd (filter (\<lambda>row. row \<noteq> []) (tl (read_range A_A g))) =
        filter (\<lambda>cell. cell \<noteq> []) (map first_cell (tl g))"
    by (simp only: ids_of_column)
  then show ?thesis
    by (simp only: identifiers_in_def data_ids_def)
qed

lemma get_existing_lead_ids_ok:
  "faults svc = [] \<Longrightarrow> tabs svc sheet_name = Some g \<Longrightarrow>
   get_existing_lead_ids sheet_name svc =
     (identifiers_in g, svc\<lparr>log := log svc @ [ValuesGet sheet_name A_A]\<rparr>)"
  by (simp add: get_existing_lead_ids_def values_get_ok ids_of_read del: set_map set_filter)

lemma identifiers_in_overwrite: "identifiers_in (overwrite [HEADERS] g) = identifiers_in g"
  by (simp add: identifiers_in_def data_ids_def tl_overwrite)

subsection \<open>The notes cell\<close>

lemma notes_text_filter:
  "notes_text notes_list =
     map note_repr (filter (\<lambda>note. dict_get note ''Note'' [] \<noteq> []) notes_list)"
  by (induction notes_list) (simp_all add: note_repr_def Let_def)

lemma extract_notes_entries:
  "extract_notes lead = join '' | '' (notes_text (note_entries lead))"
  by (simp add: extract_notes_def note_entries_def split: option.splits one_or_many.splits)

text \<open>
  Claim C5, as amended. The notes cell joins, with the separator \<open>" | "\<close> and in the
  order of the source, the \<open>[timestamp] text\<close> of every note entry whose text is not
  empty; an entry with an empty or absent text is left out. A record without note
  entries gets the empty string. The instance of the claim is checked below.
\<close>

theorem extract_notes_joins_entries_with_text:
  "extract_notes lead =
     join '' | '' (map note_repr
       (filter (\<lambda>note. dict_get note ''Note'' [] \<noteq> []) (note_entries lead)))
   \<and> (note_entries lead = [] \<longrightarrow> extract_notes lead = [])"
  by (simp add: extract_notes_entries notes_text_filter)

theorem extract_notes_joins_entries_with_text_witness:
  "extract_notes
     \<lparr>scalars = Map.empty,
      ListOfSfinotesws = Some \<lparr>Sfinotesws = Some (Many
        [[''Created'' \<mapsto> ''t1'', ''Note'' \<mapsto> ''hello''],
         [''Created'' \<mapsto> ''t2'', ''Note'' \<mapsto> ''world'']])\<rparr>\<rparr>
   = ''[t1] hello | [t2] world''
   \<and> extract_notes \<lparr>scalars = Map.empty, ListOfSfinotesws = None\<rparr> = ''''
   \<and> extract_notes \<lparr>scalars = Map.empty, ListOfSfinotesws = Some \<lparr>Sfinotesws = Some (Many [])\<rparr>\<rparr> = ''''"
proof -
  let ?l1 = "\<lparr>scalars = Map.empty,
      ListOfSfinotesws = Some \<lparr>Sfinotesws = Some (Many
        [[''Created'' \<mapsto> ''t1'', ''Note'' \<mapsto> ''hello''],
         [''Created'' \<mapsto> ''t2'', ''Note'' \<mapsto> ''world'']])\<rparr>\<rparr>"
  let ?l2 = "\<lparr>scalars = Map.empty, ListOfSfinotesws = None\<rparr>"
  let ?l3 = "\<lparr>scalars = Map.empty, ListOfSfinotesws = Some \<lparr>Sfinotesws = Some (Many [])\<rparr>\<rparr>"
  have e2: "note_entries ?l2 = []" and e3: "note_entries ?l3 = []"
    by (simp_all add: note_entries_def)
  from extract_notes_joins_entries_with_text [of ?l1]
  have "extract_notes ?l1 = ''[t1] hello | [t2] world''"
    by (simp add: note_entries_def note_repr_def dict_get_def)
  moreover from extract_notes_joins_entries_with_text [of ?l2] e2
  have "extract_notes ?l2 = ''''" by blast
  moreover from extract_notes_joins_entries_with_text [of ?l3] e3
  have "extract_notes ?l3 = ''''" by blast
  ultimately show ?thesis by blast
qed

theorem extract_notes_skips_empty_text_counterexample:
  "extract_notes
     \<lparr>scalars = Map.empty,
      ListOfSfinotesws = Some \<lparr>Sfinotesws = Some (Many
        [[''Created'' \<mapsto> ''t1'', ''Note'' \<mapsto> ''''],
         [''Created'' \<mapsto> ''t2'', ''Note'' \<mapsto> ''world'']])\<rparr>\<rparr>
   = ''[t2] world''
   \<and> spec_notes_cell
     \<lparr>scalars = Map.empty,
      ListOfSfinotesws = Some \<lparr>Sfinotesws = Some (Many
        [[''Created'' \<mapsto> ''t1'', ''Note'' \<mapsto> ''''],
         [''Created'' \<mapsto> ''t2'', ''Note'' \<mapsto> ''world'']])\<rparr>\<rparr>
   = ''[t1]  | [t2] world''"
  by (simp add: extract_notes_def spec_notes_cell_def note_entries_def note_repr_def
        dict_get_def)

subsection \<open>Existing identifiers and headers\<close>

lemma values_get_Inr:
  "values_get sheet_name rng svc = (Inr vals, s) \<Longrightarrow>
   vals = read_range rng (grid_of svc sheet_name) \<and> tabs svc sheet_name \<noteq> None"
  by (auto simp: values_get_def send_def grid_of_def split: list.splits option.splits)

lemma values_get_log:
  "log (snd (values_get sheet_name rng svc)) = log svc @ [ValuesGet sheet_name rng]
   \<and> tabs (snd (values_get sheet_name rng svc)) = tabs svc"
  by (auto simp: values_get_def send_def split: list.splits option.splits)

text \<open>
  Claim C6. \<open>get_existing_lead_ids\<close> sends one request, the read of column \<open>A\<close> of the
  tab, and changes no tab. When the read is answered, the result is the set of the
  non-empty cells of the first column below the header row; when the read fails with an
  \<open>HttpError\<close> (the tab is missing, or the service refuses the request), the result is
  the empty set and nothing is raised.
\<close>

theorem get_existing_lead_ids_column:
  "(values_get sheet_name A_A svc = (Inr vals, s) \<longrightarrow>
      get_existing_lead_ids sheet_name svc = (identifiers_in (grid_of svc sheet_name), s))
   \<and> (values_get sheet_name A_A svc = (Inl e, s) \<longrightarrow>
      get_existing_lead_ids sheet_name svc = ({}, s))
   \<and> log (snd (get_existing_lead_ids sheet_name svc)) = log svc @ [ValuesGet sheet_name A_A]
   \<and> tabs (snd (get_existing_lead_ids sheet_name svc)) = tabs svc"
proof (intro conjI impI)
  assume a: "values_get sheet_name A_A svc = (Inr vals, s)"
  then have "vals = read_range A_A (grid_of svc sheet_name)"
    using values_get_Inr by blast
  with a show "get_existing_lead_ids sheet_name svc = (identifiers_in (grid_of svc sheet_name), s)"
    by (simp add: get_existing_lead_ids_def ids_of_read del: set_map set_filter)
next
  assume "values_get sheet_name A_A svc = (Inl e, s)"
  then show "get_existing_lead_ids sheet_name svc = ({}, s)"
    by (simp add: get_existing_lead_ids_def)
next
  show "log (snd (get_existing_lead_ids sheet_name svc)) = log svc @ [ValuesGet sheet_name A_A]"
    using values_get_log [of sheet_name A_A svc]
    by (cases "values_get sheet_name A_A svc")
       (auto simp: get_existing_lead_ids_def split: sum.splits)
next
  show "tabs (snd (get_existing_lead_ids sheet_name svc)) = tabs svc"
    using values_get_log [of sheet_name A_A svc]
    by (cases "values_get sheet_name A_A svc")
       (auto simp: get_existing_lead_ids_def split: sum.splits)
qed

theorem get_existing_lead_ids_column_witness:
  "get_existing_lead_ids ''Leads''
     \<lparr>tabs = [''Leads'' \<mapsto> [HEADERS, [''A'', ''x''], ['''', ''y''], [], [''B'']]],
      faults = [], log = []\<rparr>
   = ({''A'', ''B''},
      \<lparr>tabs = [''Leads'' \<mapsto> [HEADERS, [''A'', ''x''], ['''', ''y''], [], [''B'']]],
       faults = [], log = [ValuesGet ''Leads'' A_A]\<rparr>)
   \<and> get_existing_lead_ids ''Leads'' \<lparr>tabs = Map.empty, faults = [], log = []\<rparr>
   = ({}, \<lparr>tabs = Map.empty, faults = [], log = [ValuesGet ''Leads'' A_A]\<rparr>)
   \<and> get_existing_lead_ids ''Leads''
     \<lparr>tabs = [''Leads'' \<mapsto> [HEADERS, [''A'']]], faults = [Some 500], log = []\<rparr>
   = ({}, \<lparr>tabs = [''Leads'' \<mapsto> [HEADERS, [''A'']]], faults = [],
          log = [ValuesGet ''Leads'' A_A]\<rparr>)"
proof -
  let ?g = "[HEADERS, [''A'', ''x''], ['''', ''y''], [], [''B'']]"
  let ?s1 = "\<lparr>tabs = [''Leads'' \<mapsto> ?g], faults = [], log = []\<rparr>"
  let ?s2 = "\<lparr>tabs = Map.empty, faults = [], log = []\<rparr> :: sheets_service"
  let ?s3 = "\<lparr>tabs = [''Leads'' \<mapsto> [HEADERS, [''A'']]], faults = [Some 500], log = []\<rparr>"
  have g1: "values_get ''Leads'' A_A ?s1 =
      (Inr (read_range A_A ?g), \<lparr>tabs = [''Leads'' \<mapsto> ?g], faults = [],
         log = [ValuesGet ''Leads'' A_A]\<rparr>)"
    by (simp add: values_get_def send_def)
  have g2: "values_get ''Leads'' A_A ?s2 =
      (Inl (HttpError 400), \<lparr>tabs = Map.empty, faults = [], log = [ValuesGet ''Leads'' A_A]\<rparr>)"
    by (simp add: values_get_def send_def)
  have g3: "values_get ''Leads'' A_A ?s3 =
      (Inl (HttpError 500), \<lparr>tabs = [''Leads'' \<mapsto> [HEADERS, [''A'']]], faults = [],
          log = [ValuesGet ''Leads'' A_A]\<rparr>)"
    by (simp add: values_get_def send_def)
  have ids: "identifiers_in (grid_of ?s1 ''Leads'') = {''A'', ''B''}"
    by (simp add: identifiers_in_def grid_of_def data_ids_def first_cell_def)
  from get_existing_lead_ids_column [of "''Leads''" ?s1 "read_range A_A ?g" _ "HttpError 400"] g1 ids
  have 1: "get_existing_lead_ids ''Leads'' ?s1 =
      ({''A'', ''B''}, \<lparr>tabs = [''Leads'' \<mapsto> ?g], faults = [],
         log = [ValuesGet ''Leads'' A_A]\<rparr>)"
    by simp
  from get_existing_lead_ids_column [of "''Leads''" ?s2 "[]" _ "HttpError 400"] g2
  have 2: "get_existing_lead_ids ''Leads'' ?s2 =
      ({}, \<lparr>tabs = Map.empty, faults = [], log = [ValuesGet ''Leads'' A_A]\<rparr>)"
    by simp
  from get_existing_lead_ids_column [of "''Leads''" ?s3 "[]" _ "HttpError 500"] g3
  have 3: "get_existing_lead_ids ''Leads'' ?s3 =
      ({}, \<lparr>tabs = [''Leads'' \<mapsto> [HEADERS, [''A'']]], faults = [],
          log = [ValuesGet ''Leads'' A_A]\<rparr>)"
    by simp
  from 1 2 3 show ?thesis by blast
qed

lemma header_row_HEADERS: "header_row (HEADERS # rows) = HEADERS"
  by (simp add: header_row_def length_HEADERS trim_HEADERS)

text \<open>
  Claim C8. The spreadsheet answers every request (no fault is scripted). \<open>header_row g\<close>
  is the first row of the tab as far as column \<open>U\<close>, which is what \<open>_ensure_headers\<close>
  reads; it is \<open>HEADERS\<close> in particular when the first row is the list of the 21
  canonical headers. If it equals \<open>HEADERS\<close>, \<open>_ensure_headers\<close> sends the one read
  and nothing else, and leaves every tab as it is. If it differs (the tab is empty, or the
  row holds something else), \<open>_ensure_headers\<close> sends the read and one update of
  \<open>A1:U1\<close> with the canonical headers; afterwards the header row is \<open>HEADERS\<close>, the rows
  below the first are the same, and no other tab has changed. If the tab does not exist,
  it is created and the headers are written into it.
\<close>

theorem ensure_headers_writes_only_when_needed:
  "(faults svc = [] \<and> tabs svc sheet_name = Some g \<and> header_row g = HEADERS \<longrightarrow>
      ensure_headers sheet_name svc =
        (Inr (), svc\<lparr>log := log svc @ [ValuesGet sheet_name A1_U1]\<rparr>))
   \<and> (faults svc = [] \<and> tabs svc sheet_name = Some g \<and> header_row g \<noteq> HEADERS \<longrightarrow>
      ensure_headers sheet_name svc =
        (Inr (), svc\<lparr>tabs := (tabs svc)(sheet_name \<mapsto> overwrite [HEADERS] g),
                    log := log svc @ [ValuesGet sheet_name A1_U1,
                                      ValuesUpdate sheet_name A1_U1 [HEADERS]]\<rparr>)
      \<and> header_row (overwrite [HEADERS] g) = HEADERS
      \<and> tl (overwrite [HEADERS] g) = tl g)
   \<and> (faults svc = [] \<and> tabs svc sheet_name = None \<longrightarrow>
      ensure_headers sheet_name svc =
        (Inr (), svc\<lparr>tabs := (tabs svc)(sheet_name \<mapsto> [HEADERS]),
                    log := log svc @ [ValuesGet sheet_name A1_U1, AddSheet sheet_name,
                                      ValuesGet sheet_name A1_U1,
                                      ValuesUpdate sheet_name A1_U1 [HEADERS]]\<rparr>))"
  by (simp add: ensure_headers_present ensure_headers_install ensure_headers_missing
        header_row_overwrite tl_overwrite)

theorem ensure_headers_writes_only_when_needed_witness:
  "ensure_headers ''Leads''
     \<lparr>tabs = [''Leads'' \<mapsto> [HEADERS, [''A'', ''x'']]], faults = [], log = []\<rparr>
   = (Inr (), \<lparr>tabs = [''Leads'' \<mapsto> [HEADERS, [''A'', ''x'']]], faults = [],
               log = [ValuesGet ''Leads'' A1_U1]\<rparr>)
   \<and> ensure_headers ''Leads''
     \<lparr>tabs = [''Leads'' \<mapsto> [[''Id'', ''Name''], [''A'', ''x'']]], faults = [], log = []\<rparr>
   = (Inr (), \<lparr>tabs = [''Leads'' \<mapsto> [HEADERS, [''A'', ''x'']]], faults = [],
               log = [ValuesGet ''Leads'' A1_U1, ValuesUpdate ''Leads'' A1_U1 [HEADERS]]\<rparr>)
   \<and> ensure_headers ''Leads'' \<lparr>tabs = Map.empty, faults = [], log = []\<rparr>
   = (Inr (), \<lparr>tabs = [''Leads'' \<mapsto> [HEADERS]], faults = [],
               log = [ValuesGet ''Leads'' A1_U1, AddSheet ''Leads'', ValuesGet ''Leads'' A1_U1,
                      ValuesUpdate ''Leads'' A1_U1 [HEADERS]]\<rparr>)"
proof -
  let ?g1 = "[HEADERS, [''A'', ''x'']]"
  let ?g2 = "[[''Id'', ''Name''], [''A'', ''x'']]"
  let ?s1 = "\<lparr>tabs = [''Leads'' \<mapsto> ?g1], faults = [], log = []\<rparr>"
  let ?s2 = "\<lparr>tabs = [''Leads'' \<mapsto> ?g2], faults = [], log = []\<rparr>"
  let ?s3 = "\<lparr>tabs = Map.empty, faults = [], log = []\<rparr> :: sheets_service"
  have h2: "header_row ?g2 = [''Id'', ''Name'']"
    by (simp add: header_row_def)
  have ne: "[''Id'', ''Name''] \<noteq> HEADERS"
  proof
    assume "[''Id'', ''Name''] = HEADERS"
    then have "length [''Id'', ''Name''] = length HEADERS" by (rule arg_cong)
    then show False by (simp add: length_HEADERS)
  qed
  from ensure_headers_writes_only_when_needed [of ?s1 "''Leads''" ?g1]
  have 1: "ensure_headers ''Leads'' ?s1 =
      (Inr (), \<lparr>tabs = [''Leads'' \<mapsto> ?g1], faults = [], log = [ValuesGet ''Leads'' A1_U1]\<rparr>)"
    by (simp add: header_row_HEADERS)
  from ensure_headers_writes_only_when_needed [of ?s2 "''Leads''" ?g2] h2 ne
  have 2: "ensure_headers ''Leads'' ?s2 =
      (Inr (), \<lparr>tabs = [''Leads'' \<mapsto> ?g1], faults = [],
               log = [ValuesGet ''Leads'' A1_U1, ValuesUpdate ''Leads'' A1_U1 [HEADERS]]\<rparr>)"
    by (simp add: length_HEADERS)
  from ensure_headers_writes_only_when_needed [of ?s3 "''Leads''" "[]"]
  have 3: "ensure_headers ''Leads'' ?s3 =
      (Inr (), \<lparr>tabs = [''Leads'' \<mapsto> [HEADERS]], faults = [],
               log = [ValuesGet ''Leads'' A1_U1, AddSheet ''Leads'', ValuesGet ''Leads'' A1_U1,
                      ValuesUpdate ''Leads'' A1_U1 [HEADERS]]\<rparr>)"
    by simp
  from 1 2 3 show ?thesis by blast
qed

subsection \<open>Appending leads\<close>

lemma trim_trailing_prefix:
  "trim_trailing blank xs = take (length (trim_trailing blank xs)) xs"
  by (induction xs) (auto split: list.splits)

lemma trim_trailing_full:
  assumes "length (trim_trailing blank xs) = n" "length xs \<le> n"
  shows "trim_trailing blank xs = xs"
  using trim_trailing_prefix [of blank xs] assms by simp

lemma overwrite_headers_idem:
  assumes "header_row g = HEADERS"
  shows "overwrite [HEADERS] g = g"
proof (cases g)
  case Nil
  with assms HEADERS_not_Nil show ?thesis by (simp add: header_row_def)
next
  case (Cons row rows)
  with assms have t: "trim_trailing (\<lambda>cell. cell = []) (take 21 row) = HEADERS"
    by (simp add: header_row_def)
  then have "take 21 row = HEADERS"
    using trim_trailing_full [of "\<lambda>cell. cell = []" "take 21 row" 21] length_HEADERS by simp
  then have "HEADERS @ drop 21 row = row"
    using append_take_drop_id [of 21 row] by simp
  with Cons show ?thesis by (simp add: length_HEADERS)
qed

lemma ensure_headers_ok:
  assumes "faults svc = []"
  shows "\<exists>lg. ensure_headers sheet_name svc =
           (Inr (), svc\<lparr>tabs := (tabs svc)(sheet_name \<mapsto> overwrite [HEADERS] (grid_of svc sheet_name)),
                       log := log svc @ lg\<rparr>)"
proof (cases "tabs svc sheet_name")
  case None
  then have "grid_of svc sheet_name = []" by (simp add: grid_of_def)
  with ensure_headers_missing [OF assms None] show ?thesis by auto
next
  case (Some g)
  then have g: "grid_of svc sheet_name = g" by (simp add: grid_of_def)
  show ?thesis
  proof (cases "header_row g = HEADERS")
    case True
    then have "(tabs svc)(sheet_name \<mapsto> overwrite [HEADERS] g) = tabs svc"
      using Some by (simp add: overwrite_headers_idem map_upd_triv)
    with ensure_headers_present [OF assms Some True] g show ?thesis by auto
  next
    case False
    with ensure_headers_install [OF assms Some False] g show ?thesis by auto
  qed
qed

lemma append_leads_ok:
  assumes "faults svc = []"
  shows "\<exists>lg. append_leads clock leads sheet_name True svc =
           (Inr (length (filter (id_not_in (identifiers_in (grid_of svc sheet_name))) leads)),
            svc\<lparr>tabs := (tabs svc)(sheet_name \<mapsto>
                    overwrite [HEADERS] (grid_of svc sheet_name) @
                    map (\<lambda>(k, lead). lead_to_row (clock k) lead)
                      (enumerate 0 (filter (id_not_in (identifiers_in (grid_of svc sheet_name))) leads))),
                log := log svc @ lg\<rparr>)"
proof -
  let ?g = "overwrite [HEADERS] (grid_of svc sheet_name)"
  let ?new = "filter (id_not_in (identifiers_in (grid_of svc sheet_name))) leads"
  let ?rows = "map (\<lambda>(k, lead). lead_to_row (clock k) lead) (enumerate 0 ?new)"
  from ensure_headers_ok [OF assms] obtain lg where
    eh: "ensure_headers sheet_name svc =
           (Inr (), svc\<lparr>tabs := (tabs svc)(sheet_name \<mapsto> ?g), log := log svc @ lg\<rparr>)"
    by blast
  let ?s1 = "svc\<lparr>tabs := (tabs svc)(sheet_name \<mapsto> ?g), log := log svc @ lg\<rparr>"
  let ?s2 = "?s1\<lparr>log := log ?s1 @ [ValuesGet sheet_name A_A]\<rparr>"
  have ids: "get_existing_lead_ids sheet_name ?s1 = (identifiers_in (grid_of svc sheet_name), ?s2)"
    using assms get_existing_lead_ids_ok [of ?s1 sheet_name ?g]
    by (simp add: identifiers_in_overwrite)
  show ?thesis
  proof (cases "?new = []")
    case True
    then have "append_leads clock leads sheet_name True svc = (Inr 0, ?s2)"
      by (simp add: append_leads_def eh ids)
    moreover have "?s2 = svc\<lparr>tabs := (tabs svc)(sheet_name \<mapsto> ?g @ ?rows),
                           log := log svc @ (lg @ [ValuesGet sheet_name A_A])\<rparr>"
      using True by simp
    ultimately show ?thesis using True by (metis list.size(3))
  next
    case False
    have ap: "values_append sheet_name A_U ?rows ?s2 =
        (Inr (Some (length ?rows)),
         ?s2\<lparr>tabs := (tabs ?s2)(sheet_name \<mapsto> ?g @ ?rows),
              log := log ?s2 @ [ValuesAppend sheet_name A_U ?rows]\<rparr>)"
      using assms by (intro values_append_ok) simp_all
    have "append_leads clock leads sheet_name True svc =
        (Inr (length ?new),
         ?s2\<lparr>tabs := (tabs ?s2)(sheet_name \<mapsto> ?g @ ?rows),
              log := log ?s2 @ [ValuesAppend sheet_name A_U ?rows]\<rparr>)"
      using False ap by (simp add: append_leads_def eh ids Let_def)
    moreover have "?s2\<lparr>tabs := (tabs ?s2)(sheet_name \<mapsto> ?g @ ?rows),
              log := log ?s2 @ [ValuesAppend sheet_name A_U ?rows]\<rparr> =
        svc\<lparr>tabs := (tabs svc)(sheet_name \<mapsto> ?g @ ?rows),
            log := log svc @ (lg @ [ValuesGet sheet_name A_A, ValuesAppend sheet_name A_U ?rows])\<rparr>"
      by simp
    ultimately show ?thesis by metis
  qed
qed

lemma first_cell_lead_to_row:
  "first_cell (lead_to_row now lead) = dict_get (scalars lead) ''Id'' []"
  by (simp add: lead_to_row_def first_cell_def)

lemma first_cells_of_rows:
  "map (first_cell \<circ> (\<lambda>(k, lead). lead_to_row (clock k) lead)) (enumerate n ls) =
   map (\<lambda>lead. dict_get (scalars lead) ''Id'' []) ls"
  by (induction ls arbitrary: n) (simp_all add: first_cell_lead_to_row)

lemma header_row_append: "g \<noteq> [] \<Longrightarrow> header_row (g @ rows) = header_row g"
  by (cases g) (simp_all add: header_row_def)

lemma append_leads_grid:
  assumes "faults svc = []"
  shows "fst (append_leads clock leads sheet_name True svc) =
           Inr (length (filter (id_not_in (identifiers_in (grid_of svc sheet_name))) leads))"
    and "faults (snd (append_leads clock leads sheet_name True svc)) = []"
    and "grid_of (snd (append_leads clock leads sheet_name True svc)) sheet_name =
           overwrite [HEADERS] (grid_of svc sheet_name) @
           map (\<lambda>(k, lead). lead_to_row (clock k) lead)
             (enumerate 0 (filter (id_not_in (identifiers_in (grid_of svc sheet_name))) leads))"
  using append_leads_ok [OF assms, of clock leads sheet_name] assms
  by (auto simp: grid_of_def)

lemma append_leads_data_ids:
  assumes "faults svc = []"
  shows "data_ids (grid_of (snd (append_leads clock leads sheet_name True svc)) sheet_name) =
           data_ids (grid_of svc sheet_name) @
           map (\<lambda>lead. dict_get (scalars lead) ''Id'' [])
             (filter (id_not_in (identifiers_in (grid_of svc sheet_name))) leads)"
  using overwrite_not_Nil [of "grid_of svc sheet_name"]
  by (simp add: append_leads_grid(3) [OF assms] data_ids_def tl_overwrite first_cells_of_rows)

lemma append_leads_header:
  assumes "faults svc = []"
  shows "header_row (grid_of (snd (append_leads clock leads sheet_name True svc)) sheet_name) = HEADERS"
  using overwrite_not_Nil [of "grid_of svc sheet_name"]
  by (simp add: append_leads_grid(3) [OF assms] header_row_append header_row_overwrite)

text \<open>
  Claim C1. The spreadsheet answers every request (no fault is scripted) and \<open>E\<close> is
  the set of the identifiers in the table before the call. Then \<open>append_leads\<close> with
  \<open>skip_duplicates\<close> adds, below the existing data rows and in the order of the input, one
  row for each record whose identifier is not in \<open>E\<close>, and nothing else; the first cell
  of each added row is the record's identifier; the returned number is the number of
  rows added. The instance of the claim is checked below.
\<close>

theorem append_leads_writes_new_records:
  assumes "faults svc = []"
    and "E = identifiers_in (grid_of svc sheet_name)"
    and "append_leads clock leads sheet_name True svc = (r, svc')"
  shows "r = Inr (length (filter (id_not_in E) leads))
       \<and> tl (grid_of svc' sheet_name) =
           tl (grid_of svc sheet_name) @
           map (\<lambda>(k, lead). lead_to_row (clock k) lead) (enumerate 0 (filter (id_not_in E) leads))
       \<and> data_ids (grid_of svc' sheet_name) =
           data_ids (grid_of svc sheet_name) @
           map (\<lambda>lead. dict_get (scalars lead) ''Id'' []) (filter (id_not_in E) leads)
       \<and> header_row (grid_of svc' sheet_name) = HEADERS"
proof -
  have s: "svc' = snd (append_leads clock leads sheet_name True svc)"
    and r: "r = fst (append_leads clock leads sheet_name True svc)"
    using assms(3) by simp_all
  have "tl (grid_of svc' sheet_name) =
           tl (grid_of svc sheet_name) @
           map (\<lambda>(k, lead). lead_to_row (clock k) lead) (enumerate 0 (filter (id_not_in E) leads))"
    using overwrite_not_Nil [of "grid_of svc sheet_name"]
    by (simp add: s assms(2) append_leads_grid(3) [OF assms(1)] tl_overwrite)
  then show ?thesis
    using append_leads_grid(1) [OF assms(1), of clock leads sheet_name]
      append_leads_data_ids [OF assms(1), of clock leads sheet_name]
      append_leads_header [OF assms(1), of clock leads sheet_name]
    by (simp add: s r assms(2))
qed

theorem append_leads_writes_new_records_witness:
  "fst (append_leads (\<lambda>k. ''11/04/2026 10:00:00'')
          [\<lparr>scalars = [''Id'' \<mapsto> ''B''], ListOfSfinotesws = None\<rparr>,
           \<lparr>scalars = [''Id'' \<mapsto> ''C''], ListOfSfinotesws = None\<rparr>,
           \<lparr>scalars = [''Id'' \<mapsto> ''D''], ListOfSfinotesws = None\<rparr>]
          ''Leads'' True
          \<lparr>tabs = [''Leads'' \<mapsto> [HEADERS, [''A''], [''B'']]], faults = [], log = []\<rparr>)
   = Inr 2
   \<and> tl (grid_of (snd (append_leads (\<lambda>k. ''11/04/2026 10:00:00'')
          [\<lparr>scalars = [''Id'' \<mapsto> ''B''], ListOfSfinotesws = None\<rparr>,
           \<lparr>scalars = [''Id'' \<mapsto> ''C''], ListOfSfinotesws = None\<rparr>,
           \<lparr>scalars = [''Id'' \<mapsto> ''D''], ListOfSfinotesws = None\<rparr>]
          ''Leads'' True
          \<lparr>tabs = [''Leads'' \<mapsto> [HEADERS, [''A''], [''B'']]], faults = [], log = []\<rparr>))
        ''Leads'')
   = [[''A''], [''B''],
      lead_to_row ''11/04/2026 10:00:00'' \<lparr>scalars = [''Id'' \<mapsto> ''C''], ListOfSfinotesws = None\<rparr>,
      lead_to_row ''11/04/2026 10:00:00'' \<lparr>scalars = [''Id'' \<mapsto> ''D''], ListOfSfinotesws = None\<rparr>]
   \<and> data_ids (grid_of (snd (append_leads (\<lambda>k. ''11/04/2026 10:00:00'')
          [\<lparr>scalars = [''Id'' \<mapsto> ''B''], ListOfSfinotesws = None\<rparr>,
           \<lparr>scalars = [''Id'' \<mapsto> ''C''], ListOfSfinotesws = None\<rparr>,
           \<lparr>scalars = [''Id'' \<mapsto> ''D''], ListOfSfinotesws = None\<rparr>]
          ''Leads'' True
          \<lparr>tabs = [''Leads'' \<mapsto> [HEADERS, [''A''], [''B'']]], faults = [], log = []\<rparr>))
        ''Leads'')
   = [''A'', ''B'', ''C'', ''D'']"
proof -
  let ?ck = "\<lambda>k::nat. ''11/04/2026 10:00:00''"
  let ?lB = "\<lparr>scalars = [''Id'' \<mapsto> ''B''], ListOfSfinotesws = None\<rparr>"
  let ?lC = "\<lparr>scalars = [''Id'' \<mapsto> ''C''], ListOfSfinotesws = None\<rparr>"
  let ?lD = "\<lparr>scalars = [''Id'' \<mapsto> ''D''], ListOfSfinotesws = None\<rparr>"
  let ?S = "\<lparr>tabs = [''Leads'' \<mapsto> [HEADERS, [''A''], [''B'']]], faults = [], log = []\<rparr>"
  let ?R = "append_leads ?ck [?lB, ?lC, ?lD] ''Leads'' True ?S"
  have f: "faults ?S = []" by simp
  have g: "grid_of ?S ''Leads'' = [HEADERS, [''A''], [''B'']]"
    by (simp add: grid_of_def)
  have E: "{''A'', ''B''} = identifiers_in (grid_of ?S ''Leads'')"
    by (simp add: g identifiers_in_def data_ids_def first_cell_def)
  have d: "data_ids [HEADERS, [''A''], [''B'']] = [''A'', ''B'']"
    by (simp add: data_ids_def first_cell_def)
  have R: "?R = (fst ?R, snd ?R)" by simp
  from append_leads_writes_new_records [OF f E R]
  show ?thesis
    by (simp add: id_not_in_def g d dict_get_def)
qed

lemma count_list_not_in_filter:
  assumes "i \<notin> E"
  shows "count_list (map (\<lambda>lead. dict_get (scalars lead) ''Id'' []) (filter (id_not_in E) leads)) i =
         count_list (map (\<lambda>lead. dict_get (scalars lead) ''Id'' []) leads) i"
  using assms
  by (induction leads) (auto simp: id_not_in_def dict_get_def split: option.splits)

text \<open>
  Claim C9. The spreadsheet answers every request and the identifier \<open>i\<close> is not among
  the identifiers of the table. Then after \<open>append_leads\<close> with \<open>skip_duplicates\<close> the
  identifier column holds \<open>i\<close> once more for every record of the input that carries it:
  records of one batch that share an identifier are all written, since the filter looks
  only at the identifiers read from the table before the write.
\<close>

theorem append_leads_keeps_duplicates_within_batch:
  assumes "faults svc = []"
    and "i \<notin> identifiers_in (grid_of svc sheet_name)"
    and "append_leads clock leads sheet_name True svc = (r, svc')"
  shows "count_list (data_ids (grid_of svc' sheet_name)) i =
           count_list (data_ids (grid_of svc sheet_name)) i +
           count_list (map (\<lambda>lead. dict_get (scalars lead) ''Id'' []) leads) i"
proof -
  have "svc' = snd (append_leads clock leads sheet_name True svc)"
    using assms(3) by simp
  then show ?thesis
    by (simp add: append_leads_data_ids [OF assms(1)] count_list_not_in_filter [OF assms(2)])
qed

theorem append_leads_keeps_duplicates_within_batch_witness:
  "count_list
     (data_ids (grid_of (snd (append_leads (\<lambda>k. ''11/04/2026 10:00:00'')
          [\<lparr>scalars = [''Id'' \<mapsto> ''C''], ListOfSfinotesws = None\<rparr>,
           \<lparr>scalars = [''Id'' \<mapsto> ''C''], ListOfSfinotesws = None\<rparr>,
           \<lparr>scalars = [''Id'' \<mapsto> ''A''], ListOfSfinotesws = None\<rparr>]
          ''Leads'' True
          \<lparr>tabs = [''Leads'' \<mapsto> [HEADERS, [''A'']]], faults = [], log = []\<rparr>))
        ''Leads''))
     ''C'' = 2"
proof -
  let ?ck = "\<lambda>k::nat. ''11/04/2026 10:00:00''"
  let ?lC = "\<lparr>scalars = [''Id'' \<mapsto> ''C''], ListOfSfinotesws = None\<rparr>"
  let ?lA = "\<lparr>scalars = [''Id'' \<mapsto> ''A''], ListOfSfinotesws = None\<rparr>"
  let ?S = "\<lparr>tabs = [''Leads'' \<mapsto> [HEADERS, [''A'']]], faults = [], log = []\<rparr>"
  let ?R = "append_leads ?ck [?lC, ?lC, ?lA] ''Leads'' True ?S"
  have f: "faults ?S = []" by simp
  have g: "grid_of ?S ''Leads'' = [HEADERS, [''A'']]"
    by (simp add: grid_of_def)
  have d: "data_ids [HEADERS, [''A'']] = [''A'']"
    by (simp add: data_ids_def first_cell_def)
  have E: "''C'' \<notin> identifiers_in (grid_of ?S ''Leads'')"
    by (simp add: g d identifiers_in_def)
  have R: "?R = (fst ?R, snd ?R)" by simp
  from append_leads_keeps_duplicates_within_batch [OF f E R]
  show ?thesis
    by (simp add: g d dict_get_def)
qed

lemma count_list_distinct:
  "distinct xs \<Longrightarrow> x \<in> set xs \<Longrightarrow> count_list xs x = 1"
  by (induction xs) (auto simp: count_list_0_iff)

lemma append_leads_grid_unchanged:
  assumes "faults svc = []"
    and "header_row (grid_of svc sheet_name) = HEADERS"
    and "filter (id_not_in (identifiers_in (grid_of svc sheet_name))) leads = []"
  shows "grid_of (snd (append_leads clock leads sheet_name True svc)) sheet_name =
           grid_of svc sheet_name"
  by (simp add: append_leads_grid(3) [OF assms(1)] assms(3)
        overwrite_headers_idem [OF assms(2)])

text \<open>
  Claim C2, as amended. The spreadsheet answers every request, the records of the list
  carry pairwise different, non-empty identifiers, and none of these identifiers stands
  more than once in the table beforehand. Then after two calls of \<open>append_leads\<close> in a
  row with that list and \<open>skip_duplicates\<close>, the second call has returned 0 and has left
  the table as the first call left it, and every record's identifier stands exactly once
  in the identifier column.
\<close>

theorem append_leads_twice:
  assumes "faults svc = []"
    and "distinct (map (\<lambda>lead. dict_get (scalars lead) ''Id'' []) leads)"
    and "\<forall>lead\<in>set leads. dict_get (scalars lead) ''Id'' [] \<noteq> [] \<and>
           count_list (data_ids (grid_of svc sheet_name)) (dict_get (scalars lead) ''Id'' []) \<le> 1"
    and "append_leads clock1 leads sheet_name True svc = (r1, svc1)"
    and "append_leads clock2 leads sheet_name True svc1 = (r2, svc2)"
  shows "r2 = Inr 0
       \<and> grid_of svc2 sheet_name = grid_of svc1 sheet_name
       \<and> (\<forall>lead\<in>set leads.
            count_list (data_ids (grid_of svc2 sheet_name)) (dict_get (scalars lead) ''Id'' []) = 1)"
proof -
  let ?ident = "\<lambda>lead. dict_get (scalars lead) ''Id'' []"
  let ?D = "data_ids (grid_of svc sheet_name)"
  let ?E = "identifiers_in (grid_of svc sheet_name)"
  let ?new = "filter (id_not_in ?E) leads"
  have s1: "svc1 = snd (append_leads clock1 leads sheet_name True svc)"
    using assms(4) by simp
  have s2: "svc2 = snd (append_leads clock2 leads sheet_name True svc1)"
    and r2: "r2 = fst (append_leads clock2 leads sheet_name True svc1)"
    using assms(5) by simp_all
  have f1: "faults svc1 = []"
    by (simp add: s1 append_leads_grid(2) [OF assms(1)])
  have D1: "data_ids (grid_of svc1 sheet_name) = ?D @ map ?ident ?new"
    by (simp add: s1 append_leads_data_ids [OF assms(1)])
  have h1: "header_row (grid_of svc1 sheet_name) = HEADERS"
    by (simp add: s1 append_leads_header [OF assms(1)])
  have some: "scalars lead ''Id'' = Some (?ident lead)" if "lead \<in> set leads" for lead
    using assms(3) that by (auto simp: dict_get_def split: option.splits)
  have E_iff: "?ident lead \<in> ?E \<longleftrightarrow> ?ident lead \<in> set ?D" if "lead \<in> set leads" for lead
    using assms(3) that by (auto simp: identifiers_in_def)
  have new_iff: "lead \<in> set ?new \<longleftrightarrow> ?ident lead \<notin> ?E" if "lead \<in> set leads" for lead
    using that some [OF that] by (simp add: id_not_in_def)
  have in_E1: "?ident lead \<in> identifiers_in (grid_of svc1 sheet_name)" if "lead \<in> set leads" for lead
  proof (cases "?ident lead \<in> ?E")
    case True
    then show ?thesis using D1 by (auto simp: identifiers_in_def)
  next
    case False
    then have "lead \<in> set ?new" using new_iff [OF that] by simp
    then have "?ident lead \<in> set (map ?ident ?new)" by force
    moreover have "?ident lead \<noteq> []" using assms(3) that by simp
    ultimately show ?thesis using D1 by (simp add: identifiers_in_def)
  qed
  have new2: "filter (id_not_in (identifiers_in (grid_of svc1 sheet_name))) leads = []"
    using in_E1 some by (auto simp: filter_empty_conv id_not_in_def)
  have g2: "grid_of svc2 sheet_name = grid_of svc1 sheet_name"
    by (simp add: s2 append_leads_grid_unchanged [OF f1 h1 new2])
  have z: "r2 = Inr 0"
    by (simp add: r2 append_leads_grid(1) [OF f1] new2)
  have once: "count_list (?D @ map ?ident ?new) (?ident lead) = 1" if "lead \<in> set leads" for lead
  proof (cases "?ident lead \<in> ?E")
    case True
    then have "?ident lead \<in> set ?D" using E_iff [OF that] by simp
    then have "count_list ?D (?ident lead) \<noteq> 0" by (simp add: count_list_0_iff)
    with assms(3) that have c: "count_list ?D (?ident lead) = 1" by fastforce
    have "?ident lead \<notin> set (map ?ident ?new)"
    proof
      assume "?ident lead \<in> set (map ?ident ?new)"
      then obtain l' where l': "l' \<in> set ?new" "?ident l' = ?ident lead" by auto
      then have "l' \<in> set leads" by simp
      from new_iff [OF this] l' True show False by simp
    qed
    then have "count_list (map ?ident ?new) (?ident lead) = 0" by (simp add: count_list_0_iff)
    with c show ?thesis by simp
  next
    case False
    then have "?ident lead \<notin> set ?D" using E_iff [OF that] by simp
    then have c: "count_list ?D (?ident lead) = 0" by (simp add: count_list_0_iff)
    have "lead \<in> set ?new" using False new_iff [OF that] by simp
    then have m: "?ident lead \<in> set (map ?ident ?new)" by force
    have "distinct (map ?ident ?new)" using assms(2) by (rule distinct_map_filter)
    from count_list_distinct [OF this m] c show ?thesis by simp
  qed
  from z g2 once D1 show ?thesis by simp
qed

theorem append_leads_twice_witness:
  "fst (append_leads (\<lambda>k. ''11/04/2026 10:05:00'')
          [\<lparr>scalars = [''Id'' \<mapsto> ''B''], ListOfSfinotesws = None\<rparr>,
           \<lparr>scalars = [''Id'' \<mapsto> ''C''], ListOfSfinotesws = None\<rparr>]
          ''Leads'' True
          (snd (append_leads (\<lambda>k. ''11/04/2026 10:00:00'')
             [\<lparr>scalars = [''Id'' \<mapsto> ''B''], ListOfSfinotesws = None\<rparr>,
              \<lparr>scalars = [''Id'' \<mapsto> ''C''], ListOfSfinotesws = None\<rparr>]
             ''Leads'' True
             \<lparr>tabs = [''Leads'' \<mapsto> [HEADERS, [''A''], [''B'']]], faults = [], log = []\<rparr>)))
   = Inr 0
   \<and> count_list (data_ids (grid_of
        (snd (append_leads (\<lambda>k. ''11/04/2026 10:05:00'')
          [\<lparr>scalars = [''Id'' \<mapsto> ''B''], ListOfSfinotesws = None\<rparr>,
           \<lparr>scalars = [''Id'' \<mapsto> ''C''], ListOfSfinotesws = None\<rparr>]
          ''Leads'' True
          (snd (append_leads (\<lambda>k. ''11/04/2026 10:00:00'')
             [\<lparr>scalars = [''Id'' \<mapsto> ''B''], ListOfSfinotesws = None\<rparr>,
              \<lparr>scalars = [''Id'' \<mapsto> ''C''], ListOfSfinotesws = None\<rparr>]
             ''Leads'' True
             \<lparr>tabs = [''Leads'' \<mapsto> [HEADERS, [''A''], [''B'']]], faults = [], log = []\<rparr>))))
        ''Leads'')) ''B'' = 1
   \<and> count_list (data_ids (grid_of
        (snd (append_leads (\<lambda>k. ''11/04/2026 10:05:00'')
          [\<lparr>scalars = [''Id'' \<mapsto> ''B''], ListOfSfinotesws = None\<rparr>,
           \<lparr>scalars = [''Id'' \<mapsto> ''C''], ListOfSfinotesws = None\<rparr>]
          ''Leads'' True
          (snd (append_leads (\<lambda>k. ''11/04/2026 10:00:00'')
             [\<lparr>scalars = [''Id'' \<mapsto> ''B''], ListOfSfinotesws = None\<rparr>,
              \<lparr>scalars = [''Id'' \<mapsto> ''C''], ListOfSfinotesws = None\<rparr>]
             ''Leads'' True
             \<lparr>tabs = [''Leads'' \<mapsto> [HEADERS, [''A''], [''B'']]], faults = [], log = []\<rparr>))))
        ''Leads'')) ''C'' = 1"
proof -
  let ?ck1 = "\<lambda>k::nat. ''11/04/2026 10:00:00''"
  let ?ck2 = "\<lambda>k::nat. ''11/04/2026 10:05:00''"
  let ?lB = "\<lparr>scalars = [''Id'' \<mapsto> ''B''], ListOfSfinotesws = None\<rparr>"
  let ?lC = "\<lparr>scalars = [''Id'' \<mapsto> ''C''], ListOfSfinotesws = None\<rparr>"
  let ?S = "\<lparr>tabs = [''Leads'' \<mapsto> [HEADERS, [''A''], [''B'']]], faults = [], log = []\<rparr>"
  let ?R1 = "append_leads ?ck1 [?lB, ?lC] ''Leads'' True ?S"
  let ?R2 = "append_leads ?ck2 [?lB, ?lC] ''Leads'' True (snd ?R1)"
  have f: "faults ?S = []" by simp
  have g: "grid_of ?S ''Leads'' = [HEADERS, [''A''], [''B'']]"
    by (simp add: grid_of_def)
  have d: "data_ids [HEADERS, [''A''], [''B'']] = [''A'', ''B'']"
    by (simp add: data_ids_def first_cell_def)
  have dist: "distinct (map (\<lambda>lead. dict_get (scalars lead) ''Id'' []) [?lB, ?lC])"
    by (simp add: dict_get_def)
  have once: "\<forall>lead\<in>set [?lB, ?lC]. dict_get (scalars lead) ''Id'' [] \<noteq> [] \<and>
      count_list (data_ids (grid_of ?S ''Leads'')) (dict_get (scalars lead) ''Id'' []) \<le> 1"
    by (simp add: g d dict_get_def)
  have R1: "?R1 = (fst ?R1, snd ?R1)" and R2: "?R2 = (fst ?R2, snd ?R2)" by simp_all
  note t = append_leads_twice [OF f dist once R1 R2]
  from t have a: "fst ?R2 = Inr 0" by (rule conjunct1)
  from t have "\<forall>lead\<in>set [?lB, ?lC].
      count_list (data_ids (grid_of (snd ?R2) ''Leads'')) (dict_get (scalars lead) ''Id'' []) = 1"
    by blast
  then have b: "count_list (data_ids (grid_of (snd ?R2) ''Leads'')) ''B'' = 1"
    and c: "count_list (data_ids (grid_of (snd ?R2) ''Leads'')) ''C'' = 1"
    by (simp_all add: dict_get_def)
  from a b c show ?thesis by blast
qed

theorem append_leads_twice_counterexample:
  "count_list (data_ids (grid_of
        (snd (append_leads (\<lambda>k. ''11/04/2026 10:05:00'')
          [\<lparr>scalars = [''Id'' \<mapsto> ''C''], ListOfSfinotesws = None\<rparr>,
           \<lparr>scalars = [''Id'' \<mapsto> ''C''], ListOfSfinotesws = None\<rparr>]
          ''Leads'' True
          (snd (append_leads (\<lambda>k. ''11/04/2026 10:00:00'')
             [\<lparr>scalars = [''Id'' \<mapsto> ''C''], ListOfSfinotesws = None\<rparr>,
              \<lparr>scalars = [''Id'' \<mapsto> ''C''], ListOfSfinotesws = None\<rparr>]
             ''Leads'' True
             \<lparr>tabs = [''Leads'' \<mapsto> [HEADERS]], faults = [], log = []\<rparr>))))
        ''Leads'')) ''C'' = 2"
proof -
  let ?ck1 = "\<lambda>k::nat. ''11/04/2026 10:00:00''"
  let ?ck2 = "\<lambda>k::nat. ''11/04/2026 10:05:00''"
  let ?lC = "\<lparr>scalars = [''Id'' \<mapsto> ''C''], ListOfSfinotesws = None\<rparr>"
  let ?S = "\<lparr>tabs = [''Leads'' \<mapsto> [HEADERS]], faults = [], log = []\<rparr>"
  let ?S1 = "snd (append_leads ?ck1 [?lC, ?lC] ''Leads'' True ?S)"
  let ?S2 = "snd (append_leads ?ck2 [?lC, ?lC] ''Leads'' True ?S1)"
  have f: "faults ?S = []" by simp
  have g: "grid_of ?S ''Leads'' = [HEADERS]"
    by (simp add: grid_of_def)
  have f1: "faults ?S1 = []"
    by (rule append_leads_grid(2) [OF f])
  have d: "data_ids [HEADERS] = []"
    by (simp add: data_ids_def)
  have d1: "data_ids (grid_of ?S1 ''Leads'') = [''C'', ''C'']"
    by (simp add: append_leads_data_ids [OF f] g d identifiers_in_def id_not_in_def dict_get_def)
  have e1: "identifiers_in (grid_of ?S1 ''Leads'') = {''C''}"
    by (simp add: identifiers_in_def d1)
  have "data_ids (grid_of ?S2 ''Leads'') = [''C'', ''C'']"
    by (simp add: append_leads_data_ids [OF f1] d1 e1 id_not_in_def)
  then show ?thesis by simp
qed

end
